theory Spec2Isabelle
  imports Main "HOL-Library.Word"
begin

unbundle bit_operations_syntax

text \<open>
  A model of the Wake-On-LAN sender: the two address parsers of \<open>wake_on_lan.c\<close>, the
  construction of the magic packet and the sequence of socket calls of \<open>wake_on_lan\<close>
  on both platforms, and \<open>main\<close> of \<open>WakeOnLan.c\<close>; then the properties of these
  functions, one section each.
\<close>

section \<open>C strings and characters\<close>

text \<open>
  A C string is the list of its characters; the terminating NUL sits right behind the
  last element, so reading at index \<open>length s\<close> yields NUL. The source never reads
  further than that.
\<close>

definition NUL :: char where
  "NUL = CHR 0x00"

definition cstr_at :: "string \<Rightarrow> nat \<Rightarrow> char" where
  "cstr_at s i = (if i < length s then s ! i else NUL)"

text \<open>
  The numeric value of a \<open>char\<close>. The source only compares characters against ASCII
  ranges; a byte above 127 lies outside every such range whether \<open>char\<close> is signed or
  not, so the code point as an integer decides every comparison.
\<close>

definition code :: "char \<Rightarrow> int" where
  "code c = of_char c"

definition is_dec_digit :: "char \<Rightarrow> bool" where
  "is_dec_digit c = (code CHR ''0'' \<le> code c \<and> code CHR ''9'' \<ge> code c)"

section \<open>The C library function strtoumax\<close>

text \<open>
  \<open>strtoumax\<close> belongs to the C library, not to the repository. It is modelled after
  ISO C11 (7.8.2.3 with 7.22.1.4): optional white space, an optional sign, an optional
  \<open>0x\<close> prefix for base 16 (or base 0), then the longest run of digits of the base.
  The result is the converted value and the offset of \<open>endptr\<close> from \<open>nptr\<close>.
  Without any digit no conversion takes place: the value is 0 and \<open>endptr = nptr\<close>.
  A value beyond \<open>UINTMAX_MAX\<close> yields \<open>UINTMAX_MAX\<close>; \<open>uintmax_t\<close> has 64 bits
  (the source refuses to compile with fewer).
\<close>

definition isspace :: "char \<Rightarrow> bool" where
  "isspace c = (code c = 0x20 \<or> (0x09 \<le> code c \<and> code c \<le> 0x0D))"

definition digit_value :: "char \<Rightarrow> int option" where
  "digit_value c =
     (if code CHR ''0'' \<le> code c \<and> code c \<le> code CHR ''9'' then Some (code c - code CHR ''0'')
      else if code CHR ''a'' \<le> code c \<and> code c \<le> code CHR ''z'' then Some (code c - code CHR ''a'' + 10)
      else if code CHR ''A'' \<le> code c \<and> code c \<le> code CHR ''Z'' then Some (code c - code CHR ''A'' + 10)
      else None)"

definition is_digit_of :: "int \<Rightarrow> char \<Rightarrow> bool" where
  "is_digit_of b c = (case digit_value c of None \<Rightarrow> False | Some d \<Rightarrow> d < b)"

fun digits_value :: "int \<Rightarrow> string \<Rightarrow> int \<Rightarrow> int" where
  "digits_value b [] acc = acc"
| "digits_value b (c # cs) acc =
     (case digit_value c of None \<Rightarrow> acc | Some d \<Rightarrow> digits_value b cs (acc * b + d))"

definition UINTMAX_MAX :: int where
  "UINTMAX_MAX = 2 ^ 64 - 1"

definition has_hex_prefix :: "string \<Rightarrow> bool" where
  "has_hex_prefix s =
     (case s of
        c0 # c1 # c2 # _ \<Rightarrow> c0 = CHR ''0'' \<and> (c1 = CHR ''x'' \<or> c1 = CHR ''X'') \<and> is_digit_of 16 c2
      | _ \<Rightarrow> False)"

definition strtoumax :: "string \<Rightarrow> int \<Rightarrow> 64 word \<times> nat" where
  "strtoumax nptr base =
     (let ws = length (takeWhile isspace nptr);
          s1 = drop ws nptr;
          neg = (case s1 of c # _ \<Rightarrow> c = CHR ''-'' | [] \<Rightarrow> False);
          sg = (case s1 of c # _ \<Rightarrow> if c = CHR ''-'' \<or> c = CHR ''+'' then 1 else 0 | [] \<Rightarrow> 0);
          s2 = drop sg s1;
          hex = ((base = 0 \<or> base = 16) \<and> has_hex_prefix s2);
          px = (if hex then 2 else 0);
          b = (if hex then 16
               else if base = 0 then (case s2 of c # _ \<Rightarrow> if c = CHR ''0'' then 8 else 10 | [] \<Rightarrow> 10)
               else base);
          ds = takeWhile (is_digit_of b) (drop px s2);
          v = digits_value b ds 0
      in if \<not> (base = 0 \<or> (2 \<le> base \<and> base \<le> 36)) \<or> ds = [] then (0, 0)
         else ((if UINTMAX_MAX < v then - 1 else if neg then - of_int v else of_int v),
               ws + sg + px + length ds))"

section \<open>The IPv4 parser\<close>

text \<open>
  The \<open>for\<close> loop of \<open>ip_cstr_to_number\<close>, with its state: the index \<open>i\<close>, the array
  \<open>ip_octets\<close> and the counter \<open>octet\<close>. A digit starts a token; the token is
  converted by \<open>strtoumax\<close>, truncated to \<open>uint32_t\<close> and stored; \<open>i\<close> moves to
  \<open>endptr\<close>; unless a dot stands there the loop is left by \<open>break\<close>, otherwise the
  loop's \<open>i++\<close> steps over the dot.
\<close>

function ip_loop :: "string \<Rightarrow> nat \<Rightarrow> int \<Rightarrow> nat \<Rightarrow> 32 word list \<Rightarrow> nat \<Rightarrow> 32 word list \<times> nat" where
  "ip_loop ip sizeof_ip base i ip_octets octet =
     (if i < sizeof_ip \<and> cstr_at ip i \<noteq> NUL \<and> octet < 4 then
        (if is_dec_digit (cstr_at ip i) then
           (let (v, endptr) = strtoumax (drop i ip) base;
                ip_octets' = ip_octets[octet := ucast v];
                octet' = octet + 1;
                i' = i + endptr
            in if CHR ''.'' \<noteq> cstr_at ip i' then (ip_octets', octet')
               else ip_loop ip sizeof_ip base (i' + 1) ip_octets' octet')
         else ip_loop ip sizeof_ip base (i + 1) ip_octets octet)
      else (ip_octets, octet))"
  by pat_completeness auto
termination
  by (relation "measure (\<lambda>(ip, sizeof_ip, base, i, ip_octets, octet). sizeof_ip - i)") auto

declare ip_loop.simps [simp del]

definition ip_cstr_to_number :: "string \<Rightarrow> nat \<Rightarrow> int \<Rightarrow> 64 word" where
  "ip_cstr_to_number ip sizeof_ip base =
     (let (ip_octets, octet) = ip_loop ip sizeof_ip base 0 [0, 0, 0, 0] 0
      in if octet = 4 then
           ucast (push_bit 24 (ip_octets ! 0) + push_bit 16 (ip_octets ! 1)
                  + push_bit 8 (ip_octets ! 2) + ip_octets ! 3)
         else if octet = 3 then
           ucast (push_bit 24 (ip_octets ! 0) + push_bit 16 (ip_octets ! 1) + ip_octets ! 2)
         else if octet = 2 then
           ucast (push_bit 24 (ip_octets ! 0) + ip_octets ! 1)
         else if octet = 1 then
           ucast (ip_octets ! 0)
         else - 1)"

section \<open>The MAC parser\<close>

function mac_loop :: "string \<Rightarrow> nat \<Rightarrow> 64 word \<Rightarrow> nat \<Rightarrow> 64 word \<times> nat" where
  "mac_loop mac_cstr i no hex_letters =
     (if i < 17 \<and> hex_letters < 12 \<and> cstr_at mac_cstr i \<noteq> NUL then
        (let c = cstr_at mac_cstr i in
         if code CHR ''0'' \<le> code c \<and> code CHR ''9'' \<ge> code c then
           mac_loop mac_cstr (i + 1) (push_bit 4 no + of_int (code c - code CHR ''0'')) (hex_letters + 1)
         else if code CHR ''A'' \<le> code c \<and> code CHR ''F'' \<ge> code c then
           mac_loop mac_cstr (i + 1) (push_bit 4 no + of_int (code c + 10 - code CHR ''A'')) (hex_letters + 1)
         else if code CHR ''a'' \<le> code c \<and> code CHR ''f'' \<ge> code c then
           mac_loop mac_cstr (i + 1) (push_bit 4 no + of_int (code c + 10 - code CHR ''a'')) (hex_letters + 1)
         else mac_loop mac_cstr (i + 1) no hex_letters)
      else (no, hex_letters))"
  by pat_completeness auto
termination
  by (relation "measure (\<lambda>(mac_cstr, i, no, hex_letters). 17 - i)") auto

declare mac_loop.simps [simp del]

definition mac_cstr_to_number :: "string \<Rightarrow> 64 word" where
  "mac_cstr_to_number mac_cstr =
     (let (no, hex_letters) = mac_loop mac_cstr 0 0 0
      in if 12 \<noteq> hex_letters then - 1 else no)"

section \<open>The packet sender\<close>

subsection \<open>Result codes and the diagnostics record\<close>

datatype wake_on_lan_errors_t =
    WAKE_ON_LAN_ERRORS_NONE
  | WAKE_ON_LAN_ERRORS_UNKNOWN
  | WAKE_ON_LAN_ERRORS_IP
  | WAKE_ON_LAN_ERRORS_MAC
  | WAKE_ON_LAN_ERRORS_WSA_STARTUP
  | WAKE_ON_LAN_ERRORS_WINSOCK
  | WAKE_ON_LAN_ERRORS_SOCKET_CREATION
  | WAKE_ON_LAN_ERRORS_SOCKET_OPTION
  | WAKE_ON_LAN_ERRORS_SEND
  | WAKE_ON_LAN_ERRORS_SOCKET_CLOSE

text \<open>The value of an enumerator as a C \<open>int\<close>.\<close>

fun enum_value :: "wake_on_lan_errors_t \<Rightarrow> int" where
  "enum_value WAKE_ON_LAN_ERRORS_NONE = 0"
| "enum_value WAKE_ON_LAN_ERRORS_UNKNOWN = 1"
| "enum_value WAKE_ON_LAN_ERRORS_IP = 2"
| "enum_value WAKE_ON_LAN_ERRORS_MAC = 3"
| "enum_value WAKE_ON_LAN_ERRORS_WSA_STARTUP = 4"
| "enum_value WAKE_ON_LAN_ERRORS_WINSOCK = 5"
| "enum_value WAKE_ON_LAN_ERRORS_SOCKET_CREATION = 6"
| "enum_value WAKE_ON_LAN_ERRORS_SOCKET_OPTION = 7"
| "enum_value WAKE_ON_LAN_ERRORS_SEND = 8"
| "enum_value WAKE_ON_LAN_ERRORS_SOCKET_CLOSE = 9"

text \<open>
  \<open>struct wake_on_lan_s\<close>. The field \<open>last_error\<close> is a C \<open>int\<close>; it only ever
  receives values that are \<open>int\<close>s already, so it is an integer here.
\<close>

record wake_on_lan_t =
  ip_v4 :: "32 word"
  mac :: "64 word"
  return_value :: wake_on_lan_errors_t
  last_error :: int

subsection \<open>The platform and the operating system\<close>

text \<open>The two variants that \<open>#ifdef _WIN32\<close> selects between.\<close>

datatype platform = WIN32 | POSIX

text \<open>
  What the operating system answers to the calls of one run of \<open>wake_on_lan\<close>: the
  return value of each call, the version that \<open>WSAStartup\<close> reports in \<open>wsaData\<close>,
  and the error code (\<open>WSAGetLastError()\<close>, or \<open>errno\<close> on POSIX) that is current
  right after each call.
\<close>

record os_t =
  wsa_startup_result :: int
  wVersion :: "16 word"
  socket_result :: int
  setsockopt_result :: int
  sendto_result :: int
  closesocket_result :: int
  wsa_startup_error :: int
  socket_error :: int
  setsockopt_error :: int
  sendto_error :: int
  closesocket_error :: int

text \<open>
  A socket handle is an integer; \<open>INVALID_SOCKET\<close>, the all-ones handle
  \<open>(SOCKET)(~0)\<close> of Winsock, is written \<open>- 1\<close>.
\<close>

definition INVALID_SOCKET :: int where
  "INVALID_SOCKET = - 1"

definition SOCKET_ERROR :: int where
  "SOCKET_ERROR = - 1"

text \<open>
  The arguments of \<open>socket\<close> and \<open>setsockopt\<close> that the source names by the
  constants of the system headers, among the alternatives that the headers offer.
\<close>

datatype address_family = AF_UNSPEC | AF_INET | AF_INET6

datatype socket_type = SOCK_STREAM | SOCK_DGRAM | SOCK_RAW

datatype protocol = IPPROTO_TCP | IPPROTO_UDP

datatype socket_level = SOL_SOCKET | IPPROTO_IP

datatype socket_option = SO_BROADCAST | SO_REUSEADDR

text \<open>
  \<open>htonl\<close> and \<open>htons\<close> return a value whose bytes in memory are in network order,
  most significant first, whatever the host's byte order is. The model takes that
  memory image, the bytes as they go onto the wire, for the value.
\<close>

definition htonl :: "32 word \<Rightarrow> 8 word list" where
  "htonl x = [ucast (drop_bit 24 x), ucast (drop_bit 16 x), ucast (drop_bit 8 x), ucast x]"

definition htons :: "16 word \<Rightarrow> 8 word list" where
  "htons x = [ucast (drop_bit 8 x), ucast x]"

record sockaddr_in =
  sin_family :: address_family
  sin_port :: "8 word list"
  sin_addr :: "8 word list"

subsection \<open>Effects\<close>

text \<open>
  Everything a run of \<open>wake_on_lan\<close> does, in program order: the calls of the two
  parsers, the calls into the operating system with their arguments, and the stores
  into the diagnostics record \<open>*wol\<close>.
\<close>

datatype effect =
    Call_ip_cstr_to_number
  | Call_mac_cstr_to_number
  | Call_WSAStartup "16 word"
  | Call_socket address_family socket_type protocol
  | Call_setsockopt int socket_level socket_option int
  | Call_sendto int "8 word option list" sockaddr_in
  | Call_closesocket int
  | Call_close int
  | Call_WSACleanup
  | Store_ip_v4 "32 word"
  | Store_mac "64 word"
  | Store_last_error int
  | Store_return_value wake_on_lan_errors_t

text \<open>
  The local state of \<open>wake_on_lan\<close>. A cell of the stack buffer \<open>data\<close> is \<open>None\<close>
  as long as nothing has been stored into it.
\<close>

record locals =
  l_return_value :: wake_on_lan_errors_t
  l_sockfd :: int
  l_data :: "8 word option list"
  l_wol :: "wake_on_lan_t option"
  l_effects :: "effect list"

definition emit :: "effect \<Rightarrow> locals \<Rightarrow> locals" where
  "emit e s = s\<lparr>l_effects := l_effects s @ [e]\<rparr>"

text \<open>The guarded stores \<open>if(wol) { wol->field = v; }\<close>.\<close>

definition store_last_error :: "int \<Rightarrow> locals \<Rightarrow> locals" where
  "store_last_error v s =
     (case l_wol s of
        None \<Rightarrow> s
      | Some w \<Rightarrow> emit (Store_last_error v) (s\<lparr>l_wol := Some (w\<lparr>last_error := v\<rparr>)\<rparr>))"

definition store_ip_v4 :: "32 word \<Rightarrow> locals \<Rightarrow> locals" where
  "store_ip_v4 v s =
     (case l_wol s of
        None \<Rightarrow> s
      | Some w \<Rightarrow> emit (Store_ip_v4 v) (s\<lparr>l_wol := Some (w\<lparr>ip_v4 := v\<rparr>)\<rparr>))"

definition store_mac :: "64 word \<Rightarrow> locals \<Rightarrow> locals" where
  "store_mac v s =
     (case l_wol s of
        None \<Rightarrow> s
      | Some w \<Rightarrow> emit (Store_mac v) (s\<lparr>l_wol := Some (w\<lparr>mac := v\<rparr>)\<rparr>))"

definition store_return_value :: "wake_on_lan_errors_t \<Rightarrow> locals \<Rightarrow> locals" where
  "store_return_value v s =
     (case l_wol s of
        None \<Rightarrow> s
      | Some w \<Rightarrow> emit (Store_return_value v) (s\<lparr>l_wol := Some (w\<lparr>return_value := v\<rparr>)\<rparr>))"

definition fail :: "wake_on_lan_errors_t \<Rightarrow> int \<Rightarrow> locals \<Rightarrow> locals" where
  "fail e v s = store_last_error v (s\<lparr>l_return_value := e\<rparr>)"

subsection \<open>Building the packet\<close>

text \<open>
  The macros \<open>GET_BYTE_0\<close> to \<open>GET_BYTE_5\<close>: a cast to the unsigned type named in the
  macro, a shift, a mask. The casts to \<open>uint8_t\<close> and \<open>uint16_t\<close> are followed by the
  promotion to \<open>int\<close>.
\<close>

definition GET_BYTE_0 :: "64 word \<Rightarrow> 32 word" where
  "GET_BYTE_0 no = drop_bit 0x00 (ucast (ucast no :: 8 word)) AND 0xFF"

definition GET_BYTE_1 :: "64 word \<Rightarrow> 32 word" where
  "GET_BYTE_1 no = drop_bit 0x08 (ucast (ucast no :: 16 word)) AND 0xFF"

definition GET_BYTE_2 :: "64 word \<Rightarrow> 32 word" where
  "GET_BYTE_2 no = drop_bit 0x10 (ucast no) AND 0xFF"

definition GET_BYTE_3 :: "64 word \<Rightarrow> 32 word" where
  "GET_BYTE_3 no = drop_bit 0x18 (ucast no) AND 0xFF"

definition GET_BYTE_4 :: "64 word \<Rightarrow> 64 word" where
  "GET_BYTE_4 no = drop_bit 0x20 no AND 0xFF"

definition GET_BYTE_5 :: "64 word \<Rightarrow> 64 word" where
  "GET_BYTE_5 no = drop_bit 0x28 no AND 0xFF"

text \<open>
  \<open>uint8_t data[6 * (1 + 16)]\<close> with its first six cells set; the others hold nothing
  yet.
\<close>

definition sizeof_data :: nat where
  "sizeof_data = 6 * (1 + 16)"

definition data_init :: "8 word option list" where
  "data_init = (replicate sizeof_data None)
     [0 := Some 0xFF, 1 := Some 0xFF, 2 := Some 0xFF, 3 := Some 0xFF, 4 := Some 0xFF, 5 := Some 0xFF]"

text \<open>
  The loop \<open>for(size_t i = 1; i <= 16; i++)\<close>. The bytes pass through variables of
  type \<open>char\<close> and come back as \<open>uint8_t\<close>, which keeps their eight bits; \<open>index\<close>
  is a \<open>char\<close> too and stays below 97.
\<close>

function fill_data :: "nat \<Rightarrow> 8 word \<Rightarrow> 8 word \<Rightarrow> 8 word \<Rightarrow> 8 word \<Rightarrow> 8 word \<Rightarrow> 8 word
    \<Rightarrow> 8 word option list \<Rightarrow> 8 word option list" where
  "fill_data i mac5 mac4 mac3 mac2 mac1 mac0 data =
     (if i \<le> 16 then
        (let index = i * 6
         in fill_data (i + 1) mac5 mac4 mac3 mac2 mac1 mac0
              (data[index + 0 := Some mac5, index + 1 := Some mac4, index + 2 := Some mac3,
                    index + 3 := Some mac2, index + 4 := Some mac1, index + 5 := Some mac0]))
      else data)"
  by pat_completeness auto
termination
  by (relation "measure (\<lambda>(i, mac5, mac4, mac3, mac2, mac1, mac0, data). 17 - i)") auto

declare fill_data.simps [simp del]

definition build_packet :: "64 word \<Rightarrow> 8 word option list \<Rightarrow> 8 word option list" where
  "build_packet mac_no data =
     (let mac5 = ucast (GET_BYTE_5 mac_no);
          mac4 = ucast (GET_BYTE_4 mac_no);
          mac3 = ucast (GET_BYTE_3 mac_no);
          mac2 = ucast (GET_BYTE_2 mac_no);
          mac1 = ucast (GET_BYTE_1 mac_no);
          mac0 = ucast (GET_BYTE_0 mac_no)
      in fill_data 1 mac5 mac4 mac3 mac2 mac1 mac0 data)"

subsection \<open>wake_on_lan\<close>

text \<open>
  The steps inside \<open>do { ... } while(0)\<close>, last step first. Each \<open>break\<close> is the end
  of its branch.
\<close>

definition wol_sendto :: "platform \<Rightarrow> os_t \<Rightarrow> 64 word \<Rightarrow> 16 word \<Rightarrow> locals \<Rightarrow> locals" where
  "wol_sendto pf os ip_no port s =
     (let addr = \<lparr>sin_family = AF_INET, sin_port = htons port, sin_addr = htonl (ucast ip_no)\<rparr>;
          data_length = sizeof_data;
          s = emit (Call_sendto (l_sockfd s) (take data_length (l_data s)) addr) s
      in case pf of
           WIN32 \<Rightarrow>
             if SOCKET_ERROR = sendto_result os
             then fail WAKE_ON_LAN_ERRORS_SEND (sendto_error os) s
             else s\<lparr>l_return_value := WAKE_ON_LAN_ERRORS_NONE\<rparr>
         | POSIX \<Rightarrow>
             if 0 > sendto_result os
             then fail WAKE_ON_LAN_ERRORS_SEND (sendto_result os) s
             else s\<lparr>l_return_value := WAKE_ON_LAN_ERRORS_NONE\<rparr>)"

definition wol_setsockopt :: "platform \<Rightarrow> os_t \<Rightarrow> 64 word \<Rightarrow> 16 word \<Rightarrow> locals \<Rightarrow> locals" where
  "wol_setsockopt pf os ip_no port s =
     (let optval = 1;
          s = emit (Call_setsockopt (l_sockfd s) SOL_SOCKET SO_BROADCAST optval) s
      in case pf of
           WIN32 \<Rightarrow>
             if SOCKET_ERROR = setsockopt_result os
             then fail WAKE_ON_LAN_ERRORS_SOCKET_OPTION (setsockopt_error os) s
             else wol_sendto pf os ip_no port s
         | POSIX \<Rightarrow>
             if 0 > setsockopt_result os
             then fail WAKE_ON_LAN_ERRORS_SOCKET_OPTION (setsockopt_error os) s
             else wol_sendto pf os ip_no port s)"

definition wol_socket :: "platform \<Rightarrow> os_t \<Rightarrow> 64 word \<Rightarrow> 16 word \<Rightarrow> 64 word \<Rightarrow> locals \<Rightarrow> locals" where
  "wol_socket pf os ip_no port mac_no s =
     (let s = emit (Call_socket AF_INET SOCK_DGRAM IPPROTO_UDP) s;
          s = s\<lparr>l_sockfd := socket_result os\<rparr>
      in if (case pf of WIN32 \<Rightarrow> INVALID_SOCKET = l_sockfd s | POSIX \<Rightarrow> 0 > l_sockfd s)
         then fail WAKE_ON_LAN_ERRORS_SOCKET_CREATION (socket_error os) s
         else wol_setsockopt pf os ip_no port (s\<lparr>l_data := build_packet mac_no (l_data s)\<rparr>))"

definition MAKEWORD :: "8 word \<Rightarrow> 8 word \<Rightarrow> 16 word" where
  "MAKEWORD a b = ucast a OR push_bit 8 (ucast b)"

definition LOBYTE :: "16 word \<Rightarrow> 8 word" where
  "LOBYTE w = ucast (w AND 0xff)"

definition HIBYTE :: "16 word \<Rightarrow> 8 word" where
  "HIBYTE w = ucast (drop_bit 8 w)"

definition wol_startup :: "platform \<Rightarrow> os_t \<Rightarrow> 64 word \<Rightarrow> 16 word \<Rightarrow> 64 word \<Rightarrow> locals \<Rightarrow> locals" where
  "wol_startup pf os ip_no port mac_no s =
     (case pf of
        POSIX \<Rightarrow> wol_socket pf os ip_no port mac_no s
      | WIN32 \<Rightarrow>
          (let major = 2;
               minor = 2;
               wVersionRequested = MAKEWORD major minor;
               s = emit (Call_WSAStartup wVersionRequested) s
           in if 0 \<noteq> wsa_startup_result os
              then fail WAKE_ON_LAN_ERRORS_WSA_STARTUP (wsa_startup_error os) s
              else
                (let available_major = LOBYTE (wVersion os);
                     available_minor = HIBYTE (wVersion os)
                 in if available_major \<noteq> major \<or> available_minor \<noteq> minor
                    then fail WAKE_ON_LAN_ERRORS_WINSOCK
                           (sint (push_bit 8 (ucast available_major :: 32 word) OR ucast available_minor)) s
                    else wol_socket pf os ip_no port mac_no s)))"

definition wol_do_while :: "platform \<Rightarrow> os_t \<Rightarrow> string \<Rightarrow> 16 word \<Rightarrow> string \<Rightarrow> locals \<Rightarrow> locals" where
  "wol_do_while pf os ip_v4_cstr port mac_cstr s =
     (let s = emit Call_ip_cstr_to_number s;
          ip_no = ip_cstr_to_number ip_v4_cstr 13 0
      in if - 1 = ip_no
         then fail WAKE_ON_LAN_ERRORS_IP (- 1) s
         else
           (let s = store_ip_v4 (ucast ip_no) s;
                s = emit Call_mac_cstr_to_number s;
                mac_no = mac_cstr_to_number mac_cstr
            in if - 1 = mac_no
               then fail WAKE_ON_LAN_ERRORS_MAC (- 1) s
               else wol_startup pf os ip_no port mac_no (store_mac mac_no s)))"

text \<open>What follows the \<open>do { ... } while(0)\<close>: releasing the socket.\<close>

definition wol_release :: "platform \<Rightarrow> os_t \<Rightarrow> locals \<Rightarrow> locals" where
  "wol_release pf os s =
     (case pf of
        WIN32 \<Rightarrow>
          (let s =
             (if INVALID_SOCKET \<noteq> l_sockfd s
              then
                (let s = emit (Call_closesocket (l_sockfd s)) s
                 in if SOCKET_ERROR = closesocket_result os
                    then fail WAKE_ON_LAN_ERRORS_SOCKET_CLOSE (closesocket_error os) s
                    else s)
              else s)
           in emit Call_WSACleanup s)
      | POSIX \<Rightarrow> emit (Call_close (l_sockfd s)) s)"

definition locals_init :: "platform \<Rightarrow> wake_on_lan_t option \<Rightarrow> locals" where
  "locals_init pf wol =
     \<lparr>l_return_value = WAKE_ON_LAN_ERRORS_UNKNOWN,
      l_sockfd = (case pf of WIN32 \<Rightarrow> INVALID_SOCKET | POSIX \<Rightarrow> - 1),
      l_data = data_init,
      l_wol = wol,
      l_effects = []\<rparr>"

text \<open>
  The function returns its result code; the model returns with it the diagnostics
  record as the call leaves it (\<open>None\<close> for a null pointer) and the effects of the run.
\<close>

definition wake_on_lan ::
    "platform \<Rightarrow> os_t \<Rightarrow> wake_on_lan_t option \<Rightarrow> string \<Rightarrow> 16 word \<Rightarrow> string
      \<Rightarrow> wake_on_lan_errors_t \<times> wake_on_lan_t option \<times> effect list" where
  "wake_on_lan pf os wol ip_v4_cstr port mac_cstr =
     (let s = locals_init pf wol;
          s = wol_do_while pf os ip_v4_cstr port mac_cstr s;
          s = wol_release pf os s;
          s = store_return_value (l_return_value s) s
      in (l_return_value s, l_wol s, l_effects s))"

section \<open>The command-line program\<close>

text \<open>
  What \<open>main\<close> writes to standard output: the line \<open>Error: ...\<close> with the message of
  a result code, and the help text.
\<close>

datatype printed = Print_error int | Print_help

text \<open>The variables of \<open>main\<close> that the loop over the arguments sets.\<close>

record main_locals =
  m_ip :: string
  m_port :: "16 word"
  m_mac :: string
  m_parameter_i :: bool
  m_parameter_m :: bool
  m_help :: bool
  m_silent :: bool

text \<open>
  The loop \<open>for (int i = 0; i < argc; ++i)\<close>. The switches \<open>-i\<close>, \<open>-p\<close> and \<open>-m\<close>
  step to the next argument and read it; behind the last argument stands
  \<open>argv[argc]\<close>, a null pointer, and reading a string from it is undefined
  behaviour: the result is \<open>None\<close>. \<open>strncpy\<close> copies at most 29 characters into a
  buffer of 30 that is zero to begin with; the port is cut to \<open>uint16_t\<close>.
\<close>

function arg_loop :: "string list \<Rightarrow> nat \<Rightarrow> main_locals \<Rightarrow> main_locals option" where
  "arg_loop argv i v =
     (if i < length argv then
        (if CHR ''-'' = cstr_at (argv ! i) 0 then
           (let c = cstr_at (argv ! i) 1
            in if c = CHR ''i'' then
                 (if i + 1 < length argv
                  then arg_loop argv (i + 1 + 1)
                         (v\<lparr>m_parameter_i := True, m_ip := take (30 - 1) (argv ! (i + 1))\<rparr>)
                  else None)
               else if c = CHR ''p'' then
                 (if i + 1 < length argv
                  then arg_loop argv (i + 1 + 1)
                         (v\<lparr>m_port := ucast (fst (strtoumax (argv ! (i + 1)) 10))\<rparr>)
                  else None)
               else if c = CHR ''m'' then
                 (if i + 1 < length argv
                  then arg_loop argv (i + 1 + 1)
                         (v\<lparr>m_parameter_m := True, m_mac := take (30 - 1) (argv ! (i + 1))\<rparr>)
                  else None)
               else if c = CHR ''h'' then arg_loop argv (i + 1) (v\<lparr>m_help := True\<rparr>)
               else if c = CHR ''s'' then arg_loop argv (i + 1) (v\<lparr>m_silent := True\<rparr>)
               else arg_loop argv (i + 1) v)
         else arg_loop argv (i + 1) v)
      else Some v)"
  by pat_completeness auto
termination
  by (relation "measure (\<lambda>(argv, i, v). length argv - i)") auto

declare arg_loop.simps [simp del]

definition main_locals_init :: main_locals where
  "main_locals_init =
     \<lparr>m_ip = [], m_port = 60000, m_mac = [], m_parameter_i = False, m_parameter_m = False,
      m_help = False, m_silent = False\<rparr>"

text \<open>
  \<open>main\<close> after the loop. The block of the \<open>if\<close> declares a variable
  \<open>return_value\<close> of its own, which receives the result of \<open>wake_on_lan\<close> and ends
  with the block; the \<open>return\<close> statement reads the variable of the function body.
  The model returns the value of \<open>main\<close> and what was printed.
\<close>

definition main :: "platform \<Rightarrow> os_t \<Rightarrow> string list \<Rightarrow> (int \<times> printed list) option" where
  "main pf os argv =
     (case arg_loop argv 0 main_locals_init of
        None \<Rightarrow> None
      | Some v \<Rightarrow>
          (let return_value = 1;
               (help, out) =
                 (if m_parameter_i v \<and> m_parameter_m v then
                    (let return_value =
                           enum_value (fst (wake_on_lan pf os None (m_ip v) (m_port v) (m_mac v)))
                     in (m_help v,
                         if 0 \<noteq> return_value \<and> 1 \<le> return_value \<and> 9 \<ge> return_value \<and> \<not> m_silent v
                         then [Print_error return_value] else []))
                  else (True, []));
               out = (if help \<and> \<not> m_silent v then out @ [Print_help] else out)
           in Some (return_value, out)))"

section \<open>Example environments\<close>

text \<open>An operating system on which every call succeeds and the whole packet is sent.\<close>

definition os_ok :: os_t where
  "os_ok =
     \<lparr>wsa_startup_result = 0, wVersion = 0x0202, socket_result = 3, setsockopt_result = 0,
      sendto_result = 102, closesocket_result = 0, wsa_startup_error = 0, socket_error = 0,
      setsockopt_error = 0, sendto_error = 0, closesocket_error = 0\<rparr>"

text \<open>
  The same, except that \<open>closesocket\<close> fails (with \<open>WSAENOTSOCK\<close>), that \<open>sendto\<close>
  fails (with \<open>ENETUNREACH\<close>), and that \<open>sendto\<close> reports 50 bytes as sent.
\<close>

definition os_close_fails :: os_t where
  "os_close_fails = os_ok\<lparr>closesocket_result := - 1, closesocket_error := 10038\<rparr>"



text \<open>A diagnostics record as the caller might pass it.\<close>

definition wol_zero :: wake_on_lan_t where
  "wol_zero = \<lparr>ip_v4 = 0, mac = 0, return_value = WAKE_ON_LAN_ERRORS_NONE, last_error = 0\<rparr>"

section \<open>Notions used in the statements\<close>

text \<open>
  The characters that the loop of the IPv4 parser can still look at from index \<open>i\<close>
  on: those in front of the terminating NUL, up to the scan length.
\<close>

definition scanned :: "string \<Rightarrow> nat \<Rightarrow> nat \<Rightarrow> string" where
  "scanned ip sizeof_ip i = take (sizeof_ip - i) (takeWhile (\<lambda>c. c \<noteq> NUL) (drop i ip))"

text \<open>
  The number that a string of decimal digits denotes, and the number that a string of
  octal digits denotes.
\<close>

definition dec_value :: "string \<Rightarrow> int" where
  "dec_value ds = foldl (\<lambda>v c. 10 * v + (code c - code CHR ''0'')) 0 ds"

definition is_oct_digit :: "char \<Rightarrow> bool" where
  "is_oct_digit c = (code CHR ''0'' \<le> code c \<and> code c \<le> code CHR ''7'')"

definition oct_value :: "string \<Rightarrow> int" where
  "oct_value ds = foldl (\<lambda>v c. 8 * v + (code c - code CHR ''0'')) 0 ds"

text \<open>
  Hexadecimal digits and the number that a string of them denotes, the first digit
  being the most significant; the ASCII upper-case form of a character.
\<close>

definition is_hex_digit :: "char \<Rightarrow> bool" where
  "is_hex_digit c =
     ((code CHR ''0'' \<le> code c \<and> code c \<le> code CHR ''9'')
      \<or> (code CHR ''A'' \<le> code c \<and> code c \<le> code CHR ''F'')
      \<or> (code CHR ''a'' \<le> code c \<and> code c \<le> code CHR ''f''))"

definition hex_digit_value :: "char \<Rightarrow> int" where
  "hex_digit_value c =
     (if code c \<le> code CHR ''9'' then code c - code CHR ''0''
      else if code c \<le> code CHR ''F'' then code c - code CHR ''A'' + 10
      else code c - code CHR ''a'' + 10)"

definition hex_value :: "string \<Rightarrow> int" where
  "hex_value ds = foldl (\<lambda>v c. 16 * v + hex_digit_value c) 0 ds"

definition toupper :: "char \<Rightarrow> char" where
  "toupper c = (if code CHR ''a'' \<le> code c \<and> code c \<le> code CHR ''z'' then char_of (code c - 32) else c)"

text \<open>
  The numeral in C notation at the head of a text that begins with a decimal digit:
  the number it denotes and its length. Behind \<open>0x\<close> or \<open>0X\<close> it consists of
  hexadecimal digits (there must be one), otherwise of octal digits if the text begins
  with \<open>0\<close>, otherwise of decimal digits; in each case of as many as there are. The
  number it denotes is not bounded.
\<close>

definition c_numeral :: "string \<Rightarrow> int \<times> nat" where
  "c_numeral s =
     (if (case s of
            c0 # c1 # c2 # _ \<Rightarrow>
              c0 = CHR ''0'' \<and> (c1 = CHR ''x'' \<or> c1 = CHR ''X'') \<and> is_hex_digit c2
          | _ \<Rightarrow> False)
      then (hex_value (takeWhile is_hex_digit (drop 2 s)),
            2 + length (takeWhile is_hex_digit (drop 2 s)))
      else if (case s of c0 # _ \<Rightarrow> c0 = CHR ''0'' | [] \<Rightarrow> False)
      then (oct_value (takeWhile is_oct_digit s), length (takeWhile is_oct_digit s))
      else (dec_value (takeWhile is_dec_digit s), length (takeWhile is_dec_digit s)))"

text \<open>
  The numeric parts of an address text, in the words of the specification: the text is
  read from the left; where a decimal digit is found, the numeral that starts there is
  the next part; a dot right behind the numeral lets the search go on behind the dot,
  anything else ends it; no more than four parts are collected. A part is given as the
  index of its first digit and the number that the numeral denotes.

  \<open>first_digit ip n i\<close> is the index of the first decimal digit at or behind index
  \<open>i\<close>, below index \<open>n\<close> and in front of the terminating NUL. \<open>ip_tokens k ip n i\<close>
  are the parts, \<open>k\<close> at most, found from index \<open>i\<close> on when only a digit below
  index \<open>n\<close> may start a part. \<open>ip_parts ip\<close> are the parts of the whole text, and
  \<open>parts_below n ip\<close> those of them that start below index \<open>n\<close>.
\<close>

definition first_digit :: "string \<Rightarrow> nat \<Rightarrow> nat \<Rightarrow> nat option" where
  "first_digit ip n i =
     List.find (\<lambda>j. is_dec_digit (cstr_at ip j)) (takeWhile (\<lambda>j. cstr_at ip j \<noteq> NUL) [i ..< n])"

fun ip_tokens :: "nat \<Rightarrow> string \<Rightarrow> nat \<Rightarrow> nat \<Rightarrow> (nat \<times> int) list" where
  "ip_tokens 0 ip n i = []"
| "ip_tokens (Suc k) ip n i =
     (case first_digit ip n i of
        None \<Rightarrow> []
      | Some j \<Rightarrow>
          (let (v, l) = c_numeral (drop j ip)
           in (j, v) # (if cstr_at ip (j + l) = CHR ''.'' then ip_tokens k ip n (j + l + 1) else [])))"

definition ip_parts :: "string \<Rightarrow> (nat \<times> int) list" where
  "ip_parts ip = ip_tokens 4 ip (length ip) 0"

definition parts_below :: "nat \<Rightarrow> string \<Rightarrow> (nat \<times> int) list" where
  "parts_below n ip = filter (\<lambda>(j, v). j < n) (ip_parts ip)"

text \<open>
  The address that one to four numbers make by the additive rule, modulo \<open>2^32\<close>, as
  a 64-bit value; without any number it is the sentinel \<open>-1\<close>. \<open>address_of\<close> is
  the address that parts make when a number above \<open>UINTMAX_MAX\<close> counts as
  \<open>UINTMAX_MAX\<close> and every other number as it is.
\<close>

fun assemble :: "int list \<Rightarrow> 64 word" where
  "assemble [a, b, c, d] = word_of_int ((a * 2 ^ 24 + b * 2 ^ 16 + c * 2 ^ 8 + d) mod 2 ^ 32)"
| "assemble [a, b, c] = word_of_int ((a * 2 ^ 24 + b * 2 ^ 16 + c) mod 2 ^ 32)"
| "assemble [a, b] = word_of_int ((a * 2 ^ 24 + b) mod 2 ^ 32)"
| "assemble [a] = word_of_int (a mod 2 ^ 32)"
| "assemble _ = - 1"

definition address_of :: "(nat \<times> int) list \<Rightarrow> 64 word" where
  "address_of ps = assemble (map (\<lambda>(j, v). min v UINTMAX_MAX) ps)"

text \<open>
  The six bytes of a MAC address, most significant first (each cut to eight bits), and
  the magic packet: six bytes \<open>0xFF\<close>, then the address sixteen times.
\<close>

definition mac_octets :: "64 word \<Rightarrow> 8 word list" where
  "mac_octets m = map (\<lambda>k. word_of_int (uint m div 256 ^ k)) [5, 4, 3, 2, 1, 0]"

definition magic_packet :: "64 word \<Rightarrow> 8 word list" where
  "magic_packet m = replicate 6 0xFF @ concat (replicate 16 (mac_octets m))"


section \<open>The examples of the IPv4 parser\<close>

text \<open>
  The claim's value for \<open>192.168.178.255\<close>, 3232286975, is the address
  192.168.200.255; the parser returns 3232281343.
\<close>

theorem C6_counterexample:
  "ip_cstr_to_number ''192.168.178.255'' 13 0 \<noteq> 3232286975"
  by code_simp

text \<open>
  Claim C6, amended. With the arguments that \<open>wake_on_lan\<close> passes (scan length 13,
  base 0) the parser maps \<open>192.168.178.255\<close> to 3232281343, which is \<open>0xC0A8B2FF\<close>,
  it maps \<open>10.1\<close> to \<open>10<<24 | 1 = 167772161\<close>, and it maps \<open>abc\<close>, which has no
  digit, to the failure value \<open>-1\<close>.
\<close>

theorem C6_examples:
  "ip_cstr_to_number ''192.168.178.255'' 13 0 = 3232281343
   \<and> (3232281343 :: 64 word) = 0xC0A8B2FF
   \<and> ip_cstr_to_number ''10.1'' 13 0 = push_bit 24 10 OR 1
   \<and> ip_cstr_to_number ''10.1'' 13 0 = 167772161
   \<and> ip_cstr_to_number ''abc'' 13 0 = - 1"
  by code_simp

section \<open>The exit code of the command-line program\<close>

lemma main_returns_1:
  "main pf os argv = Some (rv, out) \<Longrightarrow> rv = 1"
  by (auto simp: main_def Let_def split: option.splits prod.splits if_splits)

text \<open>
  Claim C9 on the code. Both required parameters are given, no help is asked for, and
  every call into the operating system succeeds: \<open>wake_on_lan\<close> returns
  \<open>WAKE_ON_LAN_ERRORS_NONE\<close>, whose value is 0, nothing is printed, and \<open>main\<close>
  returns 1.
\<close>

theorem C9_exit_code_on_success:
  "fst (wake_on_lan POSIX os_ok None ''192.168.178.255'' 60000 ''FF:FF:FF:FF:FF:FF'')
     = WAKE_ON_LAN_ERRORS_NONE
   \<and> enum_value WAKE_ON_LAN_ERRORS_NONE = 0
   \<and> main POSIX os_ok [''wol'', ''-i'', ''192.168.178.255'', ''-m'', ''FF:FF:FF:FF:FF:FF'']
     = Some (1, [])"
  by code_simp

section \<open>The assembly of the IPv4 address\<close>

text \<open>The loop keeps the array at four entries and never counts beyond four parts.\<close>

lemma ip_loop_length: "length (fst (ip_loop ip n b i octs k)) = length octs"
proof (induction ip n b i octs k rule: ip_loop.induct)
  case (1 ip n b i octs k)
  show ?case
    by (subst ip_loop.simps) (use 1 in \<open>auto simp: Let_def split: prod.splits\<close>)
qed

lemma ip_loop_octet_le: "k \<le> 4 \<Longrightarrow> snd (ip_loop ip n b i octs k) \<le> 4"
proof (induction ip n b i octs k rule: ip_loop.induct)
  case (1 ip n b i octs k)
  show ?case
    by (subst ip_loop.simps) (use 1 in \<open>auto simp: Let_def split: prod.splits\<close>)
qed

text \<open>Where the parts fit into their fields no carry occurs, and the sum is the bitwise or.\<close>

lemma word32_take_bit_self: "(w :: 32 word) < 2 ^ n \<Longrightarrow> take_bit n w = w"
  by (simp add: take_bit_eq_mask less_mask_eq)

lemma add_eq_or_4:
  fixes a b c d :: "32 word"
  assumes "b < 2 ^ 8" "c < 2 ^ 8" "d < 2 ^ 8"
  shows "push_bit 24 a + push_bit 16 b + push_bit 8 c + d
         = push_bit 24 a OR push_bit 16 b OR push_bit 8 c OR d"
proof -
  have b: "take_bit 8 b = b" and c: "take_bit 8 c = c" and d: "take_bit 8 d = d"
    using assms by (simp_all add: word32_take_bit_self)
  have 1: "push_bit 24 a AND push_bit 16 (take_bit 8 b) = 0"
    by (rule bit_eqI) (auto simp: bit_simps)
  have 2: "(push_bit 24 a OR push_bit 16 (take_bit 8 b)) AND push_bit 8 (take_bit 8 c) = 0"
    by (rule bit_eqI) (auto simp: bit_simps)
  have 3: "(push_bit 24 a OR push_bit 16 (take_bit 8 b) OR push_bit 8 (take_bit 8 c)) AND take_bit 8 d = 0"
    by (rule bit_eqI) (auto simp: bit_simps)
  show ?thesis
    using 1 2 3 unfolding b c d by (simp add: disjunctive_add_eq_or or.assoc)
qed

lemma add_eq_or_3:
  fixes a b c :: "32 word"
  assumes "b < 2 ^ 8" "c < 2 ^ 16"
  shows "push_bit 24 a + push_bit 16 b + c = push_bit 24 a OR push_bit 16 b OR c"
proof -
  have b: "take_bit 8 b = b" and c: "take_bit 16 c = c"
    using assms by (simp_all add: word32_take_bit_self)
  have 1: "push_bit 24 a AND push_bit 16 (take_bit 8 b) = 0"
    by (rule bit_eqI) (auto simp: bit_simps)
  have 2: "(push_bit 24 a OR push_bit 16 (take_bit 8 b)) AND take_bit 16 c = 0"
    by (rule bit_eqI) (auto simp: bit_simps)
  show ?thesis
    using 1 2 unfolding b c by (simp add: disjunctive_add_eq_or or.assoc)
qed

lemma add_eq_or_2:
  fixes a b :: "32 word"
  assumes "b < 2 ^ 24"
  shows "push_bit 24 a + b = push_bit 24 a OR b"
proof -
  have b: "take_bit 24 b = b"
    using assms by (simp add: word32_take_bit_self)
  have 1: "push_bit 24 a AND take_bit 24 b = 0"
    by (rule bit_eqI) (auto simp: bit_simps)
  show ?thesis
    using 1 unfolding b by (simp add: disjunctive_add_eq_or)
qed

text \<open>A 32-bit value widened to \<open>int64_t\<close> is never the failure value.\<close>

lemma ucast_32_64_bound: "unat (ucast (w :: 32 word) :: 64 word) < 2 ^ 32"
proof -
  have "unat w < 2 ^ 32"
    using unsigned_less [of w, where ?'a = nat] by simp
  moreover have "unat (ucast w :: 64 word) = take_bit 64 (unat w)"
    by (simp add: unsigned_ucast_eq)
  ultimately show ?thesis
    by (simp add: take_bit_nat_eq_self)
qed

lemma ucast_32_64_not_minus1: "ucast (w :: 32 word) \<noteq> (- 1 :: 64 word)"
proof
  assume "ucast w = (- 1 :: 64 word)"
  then have "unat (ucast w :: 64 word) = unat (- 1 :: 64 word)" by simp
  with ucast_32_64_bound [of w] show False
    by (simp add: unsigned_minus_1_eq_mask mask_eq_exp_minus_1)
qed

text \<open>
  Claim C3, amended. Let the loop have collected \<open>k\<close> parts in \<open>parts\<close>. Then \<open>k\<close> is
  at most 4, and the result is: for 4 parts the sum \<open>(a<<24) + (b<<16) + (c<<8) + d\<close>
  in 32-bit arithmetic, for 3 parts \<open>(a<<24) + (b<<16) + c\<close>, for 2 parts
  \<open>(a<<24) + b\<close>, for 1 part the part itself, for 0 parts the value \<open>-1\<close>. The sum is
  the bitwise or of the claim whenever every part but the first fits into its field
  (8 bits each; 16 bits for the last of 3 parts, 24 bits for the last of 2). The value
  \<open>-1\<close> is returned for 0 parts only; every other result lies below \<open>2^32\<close>.
\<close>

theorem C3_assembly:
  assumes "ip_loop ip sizeof_ip base 0 [0, 0, 0, 0] 0 = (parts, k)"
  shows "k \<le> 4 \<and> length parts = 4
    \<and> (k = 4 \<longrightarrow>
         ip_cstr_to_number ip sizeof_ip base
           = ucast (push_bit 24 (parts ! 0) + push_bit 16 (parts ! 1) + push_bit 8 (parts ! 2) + parts ! 3)
         \<and> (parts ! 1 < 2 ^ 8 \<and> parts ! 2 < 2 ^ 8 \<and> parts ! 3 < 2 ^ 8 \<longrightarrow>
              ip_cstr_to_number ip sizeof_ip base
                = ucast (push_bit 24 (parts ! 0) OR push_bit 16 (parts ! 1) OR push_bit 8 (parts ! 2) OR parts ! 3)))
    \<and> (k = 3 \<longrightarrow>
         ip_cstr_to_number ip sizeof_ip base
           = ucast (push_bit 24 (parts ! 0) + push_bit 16 (parts ! 1) + parts ! 2)
         \<and> (parts ! 1 < 2 ^ 8 \<and> parts ! 2 < 2 ^ 16 \<longrightarrow>
              ip_cstr_to_number ip sizeof_ip base
                = ucast (push_bit 24 (parts ! 0) OR push_bit 16 (parts ! 1) OR parts ! 2)))
    \<and> (k = 2 \<longrightarrow>
         ip_cstr_to_number ip sizeof_ip base = ucast (push_bit 24 (parts ! 0) + parts ! 1)
         \<and> (parts ! 1 < 2 ^ 24 \<longrightarrow>
              ip_cstr_to_number ip sizeof_ip base = ucast (push_bit 24 (parts ! 0) OR parts ! 1)))
    \<and> (k = 1 \<longrightarrow> ip_cstr_to_number ip sizeof_ip base = ucast (parts ! 0))
    \<and> (k = 0 \<longrightarrow> ip_cstr_to_number ip sizeof_ip base = - 1)
    \<and> (ip_cstr_to_number ip sizeof_ip base = - 1 \<longleftrightarrow> k = 0)
    \<and> (k \<noteq> 0 \<longrightarrow> unat (ip_cstr_to_number ip sizeof_ip base) < 2 ^ 32)"
proof -
  have k: "k \<le> 4"
    using ip_loop_octet_le [of 0 ip sizeof_ip base 0 "[0, 0, 0, 0]"] assms by simp
  have len: "length parts = 4"
    using ip_loop_length [of ip sizeof_ip base 0 "[0, 0, 0, 0]" 0] assms by simp
  from k have cases: "k = 0 \<or> k = 1 \<or> k = 2 \<or> k = 3 \<or> k = 4"
    by arith
  have r: "ip_cstr_to_number ip sizeof_ip base =
      (if k = 4 then ucast (push_bit 24 (parts ! 0) + push_bit 16 (parts ! 1) + push_bit 8 (parts ! 2) + parts ! 3)
       else if k = 3 then ucast (push_bit 24 (parts ! 0) + push_bit 16 (parts ! 1) + parts ! 2)
       else if k = 2 then ucast (push_bit 24 (parts ! 0) + parts ! 1)
       else if k = 1 then ucast (parts ! 0)
       else - 1)"
    by (simp add: ip_cstr_to_number_def assms)
  have neq: "k \<noteq> 0 \<Longrightarrow> ip_cstr_to_number ip sizeof_ip base \<noteq> - 1"
    using cases by (auto simp: r ucast_32_64_not_minus1)
  have bound: "k \<noteq> 0 \<Longrightarrow> unat (ip_cstr_to_number ip sizeof_ip base) < 2 ^ 32"
    using cases ucast_32_64_bound by (auto simp: r)
  show ?thesis
    using k len neq bound by (auto simp: r add_eq_or_4 add_eq_or_3 add_eq_or_2)
qed

theorem C3_assembly_witness:
  "ip_loop ''192.168.178.255'' 13 0 0 [0, 0, 0, 0] 0 = ([192, 168, 178, 255], 4)
   \<and> ip_cstr_to_number ''192.168.178.255'' 13 0
       = ucast (push_bit 24 192 OR push_bit 16 168 OR push_bit 8 178 OR (255 :: 32 word))
   \<and> ip_cstr_to_number ''192.168.178.255'' 13 0 \<noteq> - 1"
proof -
  have run: "ip_loop ''192.168.178.255'' 13 0 0 [0, 0, 0, 0] 0 = ([192, 168, 178, 255], 4)"
    by code_simp
  show ?thesis
    using C3_assembly [OF run] run by simp
qed

text \<open>
  The claim as stated, with the bitwise or for every input, fails where a part exceeds
  its field: the four parts of \<open>1.1.1.256\<close> are 1, 1, 1 and 256, and the result is not
  \<open>(1<<24)|(1<<16)|(1<<8)|256\<close>.
\<close>

theorem C3_counterexample:
  "ip_loop ''1.1.1.256'' 13 0 0 [0, 0, 0, 0] 0 = ([1, 1, 1, 256], 4)
   \<and> ip_cstr_to_number ''1.1.1.256'' 13 0
       \<noteq> ucast (push_bit 24 1 OR push_bit 16 1 OR push_bit 8 1 OR (256 :: 32 word))"
  by code_simp

section \<open>The parts of an address text\<close>

text \<open>The loop collects no part exactly when it meets no digit.\<close>

lemma ip_loop_octet_ge: "k \<le> snd (ip_loop ip n b i octs k)"
proof (induction ip n b i octs k rule: ip_loop.induct)
  case (1 ip n b i octs k)
  show ?case
  proof (cases "i < n \<and> cstr_at ip i \<noteq> NUL \<and> k < 4")
    case False
    then show ?thesis
      by (subst ip_loop.simps) auto
  next
    case True
    show ?thesis
    proof (cases "is_dec_digit (cstr_at ip i)")
      case digit: True
      obtain v e where ve: "strtoumax (drop i ip) b = (v, e)"
        by (cases "strtoumax (drop i ip) b")
      show ?thesis
      proof (cases "CHR ''.'' \<noteq> cstr_at ip (i + e)")
        case True
        with \<open>i < n \<and> cstr_at ip i \<noteq> NUL \<and> k < 4\<close> digit ve show ?thesis
          by (subst ip_loop.simps) (simp add: Let_def)
      next
        case False
        have "k + 1 \<le> snd (ip_loop ip n b (i + e + 1) (octs[k := ucast v]) (k + 1))"
          using 1(1) [OF True digit ve [symmetric] refl refl refl refl] False by simp
        with True digit ve False show ?thesis
          by (subst ip_loop.simps) (simp add: Let_def)
      qed
    next
      case False
      with True 1(2) show ?thesis
        by (subst ip_loop.simps) simp
    qed
  qed
qed

lemma scanned_stop:
  "\<not> (i < n \<and> cstr_at ip i \<noteq> NUL) \<Longrightarrow> scanned ip n i = []"
  by (cases "i < length ip") (auto simp: scanned_def cstr_at_def Cons_nth_drop_Suc [symmetric])

lemma scanned_step:
  "i < n \<Longrightarrow> cstr_at ip i \<noteq> NUL \<Longrightarrow> scanned ip n i = cstr_at ip i # scanned ip n (i + 1)"
  by (cases "i < length ip")
     (auto simp: scanned_def cstr_at_def Cons_nth_drop_Suc [symmetric] take_Cons' )

lemma ip_loop_no_part:
  "snd (ip_loop ip n b i octs k) = k \<longleftrightarrow> (4 \<le> k \<or> \<not> (\<exists>c \<in> set (scanned ip n i). is_dec_digit c))"
proof (induction ip n b i octs k rule: ip_loop.induct)
  case (1 ip n b i octs k)
  show ?case
  proof (cases "i < n \<and> cstr_at ip i \<noteq> NUL \<and> k < 4")
    case False
    then show ?thesis
      by (subst ip_loop.simps) (auto simp: scanned_stop)
  next
    case True
    show ?thesis
    proof (cases "is_dec_digit (cstr_at ip i)")
      case digit: True
      obtain v e where ve: "strtoumax (drop i ip) b = (v, e)"
        by (cases "strtoumax (drop i ip) b")
      have "k + 1 \<le> snd (ip_loop ip n b i octs k)"
        using True digit ve ip_loop_octet_ge [of "k + 1" ip n b "i + e + 1" "octs[k := ucast v]"]
        by (subst ip_loop.simps) (auto simp: Let_def)
      then show ?thesis
        using True digit by (auto simp: scanned_step)
    next
      case nodigit: False
      have "ip_loop ip n b i octs k = ip_loop ip n b (i + 1) octs k"
        using True nodigit by (subst ip_loop.simps) simp
      then show ?thesis
        using True nodigit 1(2) by (auto simp: scanned_step)
    qed
  qed
qed

lemma ip_cstr_to_number_sentinel:
  "ip_cstr_to_number ip n b = - 1 \<longleftrightarrow> snd (ip_loop ip n b 0 [0, 0, 0, 0] 0) = 0"
proof -
  obtain parts k where run: "ip_loop ip n b 0 [0, 0, 0, 0] 0 = (parts, k)"
    by (cases "ip_loop ip n b 0 [0, 0, 0, 0] 0")
  have "k \<le> 4"
    using ip_loop_octet_le [of 0 ip n b 0 "[0, 0, 0, 0]"] run by simp
  then have "k = 0 \<or> k = 1 \<or> k = 2 \<or> k = 3 \<or> k = 4"
    by arith
  then show ?thesis
    by (auto simp: ip_cstr_to_number_def run ucast_32_64_not_minus1)
qed

text \<open>
  With base 0, \<open>strtoumax\<close> converts the numeral at a decimal digit; beyond
  \<open>UINTMAX_MAX\<close> it returns \<open>UINTMAX_MAX\<close>.
\<close>

lemma is_digit_of_10: "is_digit_of 10 c = is_dec_digit c"
  by (auto simp: is_digit_of_def digit_value_def is_dec_digit_def code_def split: option.splits)

lemma digits_value_dec:
  "list_all is_dec_digit ds \<Longrightarrow>
     digits_value 10 ds acc = foldl (\<lambda>v c. 10 * v + (code c - code CHR ''0'')) acc ds"
  by (induction ds arbitrary: acc)
     (auto simp: digit_value_def is_dec_digit_def mult.commute)

lemma dec_digit_facts:
  assumes "is_dec_digit c"
  shows "\<not> isspace c" "c \<noteq> CHR ''-''" "c \<noteq> CHR ''+''" "c \<noteq> NUL" "c \<noteq> CHR ''.''"
  using assms by (auto simp: is_dec_digit_def isspace_def code_def NUL_def)

lemma is_digit_of_16: "is_digit_of 16 c = is_hex_digit c"
  by (auto simp: is_digit_of_def digit_value_def is_hex_digit_def code_def split: option.splits)

lemma is_digit_of_8: "is_digit_of 8 c = is_oct_digit c"
  by (auto simp: is_digit_of_def digit_value_def is_oct_digit_def code_def split: option.splits)

lemma digits_value_hex:
  "list_all is_hex_digit ds \<Longrightarrow>
     digits_value 16 ds acc = foldl (\<lambda>v c. 16 * v + hex_digit_value c) acc ds"
  by (induction ds arbitrary: acc)
     (auto simp: digit_value_def is_hex_digit_def hex_digit_value_def mult.commute code_def)

lemma digits_value_oct:
  "list_all is_oct_digit ds \<Longrightarrow>
     digits_value 8 ds acc = foldl (\<lambda>v c. 8 * v + (code c - code CHR ''0'')) acc ds"
  by (induction ds arbitrary: acc)
     (auto simp: digit_value_def is_oct_digit_def mult.commute code_def)

lemma list_all_takeWhile: "list_all P (takeWhile P xs)"
  by (induction xs) auto

lemma word64_saturate:
  "(if UINTMAX_MAX < v then - 1 else of_int v) = (word_of_int (min v UINTMAX_MAX) :: 64 word)"
  by (simp add: UINTMAX_MAX_def min_def)

lemma strtoumax_numeral:
  assumes c: "is_dec_digit c"
  shows "strtoumax (c # cs) 0
         = (word_of_int (min (fst (c_numeral (c # cs))) UINTMAX_MAX), snd (c_numeral (c # cs)))"
proof -
  let ?s = "c # cs"
  note cf = dec_digit_facts [OF c]
  have d16: "is_digit_of 16 = is_hex_digit" and d8: "is_digit_of 8 = is_oct_digit"
    and d10: "is_digit_of 10 = is_dec_digit"
    by (rule ext, rule is_digit_of_16, rule ext, rule is_digit_of_8, rule ext, rule is_digit_of_10)
  have ws: "takeWhile isspace ?s = []"
    using cf by simp
  show ?thesis
  proof (cases "has_hex_prefix ?s")
    case True
    then obtain c1 c2 r where cs: "cs = c1 # c2 # r" and c0: "c = CHR ''0''"
      and c1: "c1 = CHR ''x'' \<or> c1 = CHR ''X''" and c2: "is_hex_digit c2"
      by (auto simp: has_hex_prefix_def is_digit_of_16 split: list.splits)
    let ?ds = "takeWhile is_hex_digit (c2 # r)"
    have ne: "?ds \<noteq> []"
      using c2 by simp
    have v: "digits_value 16 ?ds 0 = hex_value ?ds"
      using digits_value_hex [OF list_all_takeWhile [of is_hex_digit "c2 # r"], of 0]
      by (simp only: hex_value_def)
    have n: "c_numeral ?s = (hex_value ?ds, 2 + length ?ds)"
      using c0 c1 c2 by (simp add: c_numeral_def cs)
    have "strtoumax ?s 0 = ((if UINTMAX_MAX < hex_value ?ds then - 1 else of_int (hex_value ?ds)), 2 + length ?ds)"
      using True cf ne v ws by (simp add: strtoumax_def Let_def d16 cs del: takeWhile.simps)
    then show ?thesis
      by (simp only: n word64_saturate fst_conv snd_conv)
  next
    case nohex: False
    then have nohex': "\<not> (case ?s of c0 # c1 # c2 # _ \<Rightarrow>
                 c0 = CHR ''0'' \<and> (c1 = CHR ''x'' \<or> c1 = CHR ''X'') \<and> is_hex_digit c2
          | _ \<Rightarrow> False)"
      by (simp add: has_hex_prefix_def is_digit_of_16)
    show ?thesis
    proof (cases "c = CHR ''0''")
      case True
      let ?ds = "takeWhile is_oct_digit ?s"
      have ne: "?ds \<noteq> []"
        using True by (simp add: is_oct_digit_def code_def)
      have v: "digits_value 8 ?ds 0 = oct_value ?ds"
        using digits_value_oct [OF list_all_takeWhile [of is_oct_digit ?s], of 0]
        by (simp only: oct_value_def)
      have n: "c_numeral ?s = (oct_value ?ds, length ?ds)"
        using True nohex' by (simp only: c_numeral_def if_False list.case if_True simp_thms)
      have "strtoumax ?s 0 = ((if UINTMAX_MAX < oct_value ?ds then - 1 else of_int (oct_value ?ds)), length ?ds)"
        using nohex cf ne v True ws by (simp add: strtoumax_def Let_def d8 del: takeWhile.simps)
      then show ?thesis
        by (simp only: n word64_saturate fst_conv snd_conv)
    next
      case False
      let ?ds = "takeWhile is_dec_digit ?s"
      have ne: "?ds \<noteq> []"
        using c by simp
      have v: "digits_value 10 ?ds 0 = dec_value ?ds"
        using digits_value_dec [OF list_all_takeWhile [of is_dec_digit ?s], of 0]
        by (simp only: dec_value_def)
      have n: "c_numeral ?s = (dec_value ?ds, length ?ds)"
        using False nohex' by (simp only: c_numeral_def if_False list.case if_True simp_thms)
      have "strtoumax ?s 0 = ((if UINTMAX_MAX < dec_value ?ds then - 1 else of_int (dec_value ?ds)), length ?ds)"
        using nohex cf ne v False ws by (simp add: strtoumax_def Let_def d10 del: takeWhile.simps)
      then show ?thesis
        by (simp only: n word64_saturate fst_conv snd_conv)
    qed
  qed
qed

text \<open>The loop collects the parts of the text that start below the scan length.\<close>

lemma ucast_64_32_of_int: "(ucast (word_of_int v :: 64 word) :: 32 word) = word_of_int v"
  by (rule bit_word_eqI) (auto simp: bit_simps)

lemma ucast_32_64_of_int:
  "(ucast (word_of_int x :: 32 word) :: 64 word) = word_of_int (x mod 2 ^ 32)"
proof -
  have "x mod 2 ^ 32 = take_bit 32 x"
    by (simp add: take_bit_eq_mod)
  then show ?thesis
    by (simp only:) (rule bit_word_eqI, auto simp: bit_simps)
qed

lemma assemble_of_int:
  "(ucast (push_bit 24 (word_of_int a :: 32 word) + push_bit 16 (word_of_int b)
           + push_bit 8 (word_of_int c) + word_of_int d) :: 64 word)
   = word_of_int ((a * 2 ^ 24 + b * 2 ^ 16 + c * 2 ^ 8 + d) mod 2 ^ 32)"
proof -
  have "push_bit 24 (word_of_int a :: 32 word) + push_bit 16 (word_of_int b)
           + push_bit 8 (word_of_int c) + word_of_int d
        = (word_of_int (a * 2 ^ 24 + b * 2 ^ 16 + c * 2 ^ 8 + d) :: 32 word)"
    by (simp add: push_bit_eq_mult)
  then show ?thesis
    by (simp only: ucast_32_64_of_int)
qed

lemma first_digit_unfold:
  "first_digit ip n i =
     (if i < n \<and> cstr_at ip i \<noteq> NUL
      then (if is_dec_digit (cstr_at ip i) then Some i else first_digit ip n (i + 1))
      else None)"
  by (simp add: first_digit_def upt_rec [of i n])

lemma ip_tokens_unfold:
  "ip_tokens (Suc k) ip n i =
     (if i < n \<and> cstr_at ip i \<noteq> NUL
      then (if is_dec_digit (cstr_at ip i)
            then (let (v, l) = c_numeral (drop i ip)
                  in (i, v) # (if cstr_at ip (i + l) = CHR ''.'' then ip_tokens k ip n (i + l + 1) else []))
            else ip_tokens (Suc k) ip n (i + 1))
      else [])"
  by (simp add: first_digit_unfold [of ip n i])

lemma length_ip_tokens: "length (ip_tokens k ip n i) \<le> k"
  by (induction k arbitrary: i) (auto split: option.splits prod.splits)

lemma ip_loop_tokens:
  assumes "b = 0" and "length octs = 4"
  shows "ip_loop ip n b i octs k
         = (take k octs
              @ map (\<lambda>(j, v). word_of_int (min v UINTMAX_MAX)) (ip_tokens (4 - k) ip n i)
              @ drop (k + length (ip_tokens (4 - k) ip n i)) octs,
            k + length (ip_tokens (4 - k) ip n i))"
  using assms
proof (induction ip n b i octs k rule: ip_loop.induct)
  case (1 ip n b i octs k)
  note b = \<open>b = 0\<close> and len = \<open>length octs = 4\<close>
  show ?case
  proof (cases "i < n \<and> cstr_at ip i \<noteq> NUL \<and> k < 4")
    case False
    have "ip_tokens (4 - k) ip n i = []"
    proof (cases "k < 4")
      case True
      then obtain m where m: "4 - k = Suc m"
        by (cases "4 - k") auto
      from True False show ?thesis
        by (simp only: m) (subst ip_tokens_unfold, auto)
    next
      case False
      then show ?thesis by simp
    qed
    moreover have "ip_loop ip n b i octs k = (octs, k)"
      using False by (subst ip_loop.simps) auto
    ultimately show ?thesis
      by simp
  next
    case True
    then obtain m where m: "4 - k = Suc m" and m3: "3 - k = m"
      by (cases "4 - k") auto
    show ?thesis
    proof (cases "is_dec_digit (cstr_at ip i)")
      case nodigit: False
      have "ip_loop ip n b i octs k = ip_loop ip n b (i + 1) octs k"
        using True nodigit by (subst ip_loop.simps) simp
      moreover have "ip_tokens (4 - k) ip n i = ip_tokens (4 - k) ip n (i + 1)"
        using True nodigit by (simp only: m) (subst ip_tokens_unfold, simp)
      ultimately show ?thesis
        using 1(2) [OF True nodigit b len] by simp
    next
      case digit: True
      have il: "i < length ip"
        using True by (auto simp: cstr_at_def split: if_splits)
      then have dr: "drop i ip = cstr_at ip i # drop (Suc i) ip"
        by (simp add: cstr_at_def Cons_nth_drop_Suc)
      obtain v l where nu: "c_numeral (drop i ip) = (v, l)"
        by (cases "c_numeral (drop i ip)")
      let ?p = "word_of_int (min v UINTMAX_MAX) :: 32 word"
      have conv: "strtoumax (drop i ip) b = (word_of_int (min v UINTMAX_MAX), l)"
        using strtoumax_numeral [OF digit, of "drop (Suc i) ip"] nu
        by (simp add: dr [symmetric] b)
      have tk: "ip_tokens (4 - k) ip n i
                = (i, v) # (if cstr_at ip (i + l) = CHR ''.'' then ip_tokens m ip n (i + l + 1) else [])"
        using True digit nu by (simp only: m) (subst ip_tokens_unfold, simp)
      have upd: "take k octs @ ?p # drop (Suc k) octs = octs[k := ?p]"
        using True len by (simp add: upd_conv_take_nth_drop)
      show ?thesis
      proof (cases "CHR ''.'' \<noteq> cstr_at ip (i + l)")
        case stop: True
        have "ip_loop ip n b i octs k = (octs[k := ?p], k + 1)"
          using True digit conv stop
          by (subst ip_loop.simps) (simp add: ucast_64_32_of_int)
        moreover have "ip_tokens (4 - k) ip n i = [(i, v)]"
          using stop tk by auto
        ultimately show ?thesis
          using upd by simp
      next
        case dot: False
        have run: "ip_loop ip n b i octs k = ip_loop ip n b (i + l + 1) (octs[k := ?p]) (k + 1)"
          using True digit conv dot
          by (subst ip_loop.simps) (simp add: ucast_64_32_of_int)
        have tk': "ip_tokens (4 - k) ip n i = (i, v) # ip_tokens m ip n (i + l + 1)"
          using dot tk by auto
        have len': "length (octs[k := ucast (word_of_int (min v UINTMAX_MAX) :: 64 word)]) = 4"
          using len by simp
        have ih: "ip_loop ip n b (i + l + 1) (octs[k := ?p]) (k + 1)
              = (take (k + 1) (octs[k := ?p])
                   @ map (\<lambda>(j, v). word_of_int (min v UINTMAX_MAX)) (ip_tokens m ip n (i + l + 1))
                   @ drop (k + 1 + length (ip_tokens m ip n (i + l + 1))) (octs[k := ?p]),
                 k + 1 + length (ip_tokens m ip n (i + l + 1)))"
          using 1(1) [OF True digit conv [symmetric] refl refl refl refl _ b len'] dot
          by (simp add: ucast_64_32_of_int m3)
        have tku: "take (k + 1) (octs[k := ?p]) = take k octs @ [?p]"
          using True len by (simp add: take_Suc_conv_app_nth)
        show ?thesis
          by (simp only: run ih tk' tku) simp
      qed
    qed
  qed
qed

lemma assemble_of_int_3:
  "(ucast (push_bit 24 (word_of_int a :: 32 word) + push_bit 16 (word_of_int b) + word_of_int c) :: 64 word)
   = word_of_int ((a * 2 ^ 24 + b * 2 ^ 16 + c) mod 2 ^ 32)"
proof -
  have "push_bit 24 (word_of_int a :: 32 word) + push_bit 16 (word_of_int b) + word_of_int c
        = (word_of_int (a * 2 ^ 24 + b * 2 ^ 16 + c) :: 32 word)"
    by (simp add: push_bit_eq_mult)
  then show ?thesis
    by (simp only: ucast_32_64_of_int)
qed

lemma assemble_of_int_2:
  "(ucast (push_bit 24 (word_of_int a :: 32 word) + word_of_int b) :: 64 word)
   = word_of_int ((a * 2 ^ 24 + b) mod 2 ^ 32)"
proof -
  have "push_bit 24 (word_of_int a :: 32 word) + word_of_int b
        = (word_of_int (a * 2 ^ 24 + b) :: 32 word)"
    by (simp add: push_bit_eq_mult)
  then show ?thesis
    by (simp only: ucast_32_64_of_int)
qed

lemma list_le_4_cases:
  assumes "length xs \<le> 4"
  shows "xs = [] \<or> (\<exists>a. xs = [a]) \<or> (\<exists>a b. xs = [a, b]) \<or> (\<exists>a b c. xs = [a, b, c])
         \<or> (\<exists>a b c d. xs = [a, b, c, d])"
proof -
  have "length xs = 0 \<or> length xs = Suc 0 \<or> length xs = Suc (Suc 0)
        \<or> length xs = Suc (Suc (Suc 0)) \<or> length xs = Suc (Suc (Suc (Suc 0)))"
    using assms by arith
  then show ?thesis
    by (auto simp: length_Suc_conv)
qed

lemma ip_cstr_to_number_tokens:
  "ip_cstr_to_number ip n 0
   = assemble (map (\<lambda>(j, v). min v UINTMAX_MAX) (ip_tokens 4 ip n 0))"
proof -
  let ?ts = "ip_tokens 4 ip n 0"
  have run: "ip_loop ip n 0 0 [0, 0, 0, 0] 0
      = (map (\<lambda>(j, v). word_of_int (min v UINTMAX_MAX)) ?ts @ drop (length ?ts) [0, 0, 0, 0], length ?ts)"
    using ip_loop_tokens [of 0 "[0, 0, 0, 0]" ip n 0 0] by simp
  have "length ?ts \<le> 4"
    by (rule length_ip_tokens)
  then consider "?ts = []" | t1 where "?ts = [t1]" | t1 t2 where "?ts = [t1, t2]"
    | t1 t2 t3 where "?ts = [t1, t2, t3]" | t1 t2 t3 t4 where "?ts = [t1, t2, t3, t4]"
    using list_le_4_cases [of ?ts] by blast
  then show ?thesis
  proof cases
    case 1
    then show ?thesis
      by (simp add: ip_cstr_to_number_def run)
  next
    case 2
    then show ?thesis
      by (cases t1) (simp add: ip_cstr_to_number_def run ucast_32_64_of_int)
  next
    case 3
    then show ?thesis
      by (cases t1; cases t2) (simp add: ip_cstr_to_number_def run assemble_of_int_2)
  next
    case 4
    then show ?thesis
      by (cases t1; cases t2; cases t3) (simp add: ip_cstr_to_number_def run assemble_of_int_3)
  next
    case 5
    then show ?thesis
      by (cases t1; cases t2; cases t3; cases t4) (simp add: ip_cstr_to_number_def run assemble_of_int)
  qed
qed

lemma first_digit_bounds:
  assumes "first_digit ip n i = Some j"
  shows "i \<le> j \<and> j < n \<and> j < length ip"
proof -
  from assms have "j \<in> set (takeWhile (\<lambda>j. cstr_at ip j \<noteq> NUL) [i ..< n])"
    by (auto simp: first_digit_def find_Some_iff)
  then have "j \<in> set [i ..< n]" and "cstr_at ip j \<noteq> NUL"
    by (auto dest: set_takeWhileD)
  then show ?thesis
    by (auto simp: cstr_at_def split: if_splits)
qed

lemma first_digit_restrict:
  assumes "m \<le> n"
  shows "first_digit ip m i
         = (case first_digit ip n i of None \<Rightarrow> None | Some j \<Rightarrow> if j < m then Some j else None)"
proof (induction "n - i" arbitrary: i rule: less_induct)
  case less
  show ?case
  proof (cases "i < n \<and> cstr_at ip i \<noteq> NUL")
    case False
    with assms show ?thesis
      by (subst first_digit_unfold, subst (2) first_digit_unfold) auto
  next
    case True
    show ?thesis
    proof (cases "is_dec_digit (cstr_at ip i)")
      case digit: True
      with True show ?thesis
        by (subst first_digit_unfold, subst (2) first_digit_unfold) auto
    next
      case nodigit: False
      have n: "first_digit ip n i = first_digit ip n (i + 1)"
        using True nodigit by (subst first_digit_unfold) simp
      show ?thesis
      proof (cases "i < m")
        case True
        with \<open>i < n \<and> cstr_at ip i \<noteq> NUL\<close> nodigit
        have "first_digit ip m i = first_digit ip m (i + 1)"
          by (subst first_digit_unfold) simp
        moreover have "n - (i + 1) < n - i"
          using \<open>i < n \<and> cstr_at ip i \<noteq> NUL\<close> by auto
        ultimately show ?thesis
          using less [of "i + 1"] n by simp
      next
        case False
        then have "first_digit ip m i = None"
          by (subst first_digit_unfold) simp
        moreover have "\<And>j. first_digit ip n (i + 1) = Some j \<Longrightarrow> \<not> j < m"
          using False by (auto dest: first_digit_bounds)
        ultimately show ?thesis
          by (auto simp: n split: option.splits)
      qed
    qed
  qed
qed

lemma ip_tokens_starts:
  "(j, v) \<in> set (ip_tokens k ip n i) \<Longrightarrow> i \<le> j \<and> j < n \<and> j < length ip"
proof (induction k arbitrary: i)
  case 0
  then show ?case by simp
next
  case (Suc k)
  show ?case
  proof (cases "first_digit ip n i")
    case None
    with Suc.prems show ?thesis by simp
  next
    case (Some j0)
    obtain v0 l where nu: "c_numeral (drop j0 ip) = (v0, l)"
      by (cases "c_numeral (drop j0 ip)")
    from Suc.prems Some nu
    have "(j, v) = (j0, v0) \<or> (j, v) \<in> set (ip_tokens k ip n (j0 + l + 1))"
      by (auto split: if_splits)
    then show ?thesis
    proof
      assume "(j, v) = (j0, v0)"
      with first_digit_bounds [OF Some] show ?thesis by simp
    next
      assume "(j, v) \<in> set (ip_tokens k ip n (j0 + l + 1))"
      from Suc.IH [OF this] first_digit_bounds [OF Some] show ?thesis by simp
    qed
  qed
qed

lemma filter_ip_tokens_id:
  "filter (\<lambda>(j, v). j < n) (ip_tokens k ip n i) = ip_tokens k ip n i"
  "filter (\<lambda>(j, v). j < length ip) (ip_tokens k ip n i) = ip_tokens k ip n i"
  by (auto simp: filter_id_conv dest: ip_tokens_starts)

lemma ip_tokens_restrict:
  assumes "m \<le> n"
  shows "ip_tokens k ip m i = filter (\<lambda>(j, v). j < m) (ip_tokens k ip n i)"
proof (induction k arbitrary: i)
  case 0
  show ?case by simp
next
  case (Suc k)
  show ?case
  proof (cases "first_digit ip n i")
    case None
    then show ?thesis
      by (simp add: first_digit_restrict [OF assms])
  next
    case (Some j0)
    obtain v0 l where nu: "c_numeral (drop j0 ip) = (v0, l)"
      by (cases "c_numeral (drop j0 ip)")
    show ?thesis
    proof (cases "j0 < m")
      case True
      then have "first_digit ip m i = Some j0"
        using Some by (simp add: first_digit_restrict [OF assms])
      with Some nu True Suc.IH [of "j0 + l + 1"] show ?thesis
        by simp
    next
      case False
      then have "first_digit ip m i = None"
        using Some by (simp add: first_digit_restrict [OF assms])
      moreover have "filter (\<lambda>(j, v). j < m) (ip_tokens k ip n (j0 + l + 1)) = []"
        using False by (auto simp: filter_empty_conv dest: ip_tokens_starts)
      ultimately show ?thesis
        using Some nu False by simp
    qed
  qed
qed

lemma ip_tokens_parts:
  "ip_tokens 4 ip n 0 = filter (\<lambda>(j, v). j < n) (ip_parts ip)"
proof (cases "n \<le> length ip")
  case True
  then show ?thesis
    by (simp only: ip_parts_def ip_tokens_restrict)
next
  case False
  then have "ip_tokens 4 ip (length ip) 0 = filter (\<lambda>(j, v). j < length ip) (ip_tokens 4 ip n 0)"
    by (intro ip_tokens_restrict) simp
  then have "ip_parts ip = ip_tokens 4 ip n 0"
    by (simp only: ip_parts_def filter_ip_tokens_id)
  then show ?thesis
    by (simp only: filter_ip_tokens_id)
qed

lemma ip_cstr_to_number_parts:
  "ip_cstr_to_number ip n 0 = address_of (parts_below n ip)"
  by (simp only: ip_cstr_to_number_tokens ip_tokens_parts address_of_def parts_below_def)

lemma ip_cstr_to_number_fails:
  "ip_cstr_to_number ip n 0 = - 1 \<longleftrightarrow> parts_below n ip = []"
  using ip_loop_tokens [of 0 "[0, 0, 0, 0]" ip n 0 0]
  by (simp add: ip_cstr_to_number_sentinel ip_tokens_parts parts_below_def)

section \<open>No range check on the parts of an address\<close>

text \<open>
  Claim C7, amended. No collected part is compared with 255, and none makes the parser
  fail: with any base the parser fails exactly when there is no decimal digit among the
  characters it scans, and with base 0, as \<open>wake_on_lan\<close> calls it, exactly when the
  text has no part that starts below the scan length. For every text the result is
  made of the parts that start below the scan length by the additive rule, modulo
  \<open>2^32\<close>, so that whatever of a part does not fit its field carries into the higher
  bytes. A part is a numeral in C notation (decimal, octal behind a leading \<open>0\<close>,
  hexadecimal behind \<open>0x\<close>); a number up to \<open>UINTMAX_MAX\<close>, which is \<open>2^64 - 1\<close>,
  enters the sum as it is, and a larger one enters it as \<open>UINTMAX_MAX\<close>, the value
  that \<open>strtoumax\<close> returns for it.
\<close>

theorem C7_no_range_check:
  "(ip_cstr_to_number ip sizeof_ip base = - 1
      \<longleftrightarrow> \<not> (\<exists>c \<in> set (take sizeof_ip (takeWhile (\<lambda>c. c \<noteq> NUL) ip)). is_dec_digit c))
   \<and> (ip_cstr_to_number ip sizeof_ip 0 = - 1 \<longleftrightarrow> parts_below sizeof_ip ip = [])
   \<and> ip_cstr_to_number ip sizeof_ip 0
        = assemble (map (\<lambda>(j, v). min v UINTMAX_MAX) (parts_below sizeof_ip ip))"
proof -
  have A: "ip_cstr_to_number ip sizeof_ip base = - 1
      \<longleftrightarrow> \<not> (\<exists>c \<in> set (take sizeof_ip (takeWhile (\<lambda>c. c \<noteq> NUL) ip)). is_dec_digit c)"
    using ip_loop_no_part [of ip sizeof_ip base 0 "[0, 0, 0, 0]" 0]
    by (simp add: ip_cstr_to_number_sentinel scanned_def)
  have B: "ip_cstr_to_number ip sizeof_ip 0 = - 1 \<longleftrightarrow> parts_below sizeof_ip ip = []"
    by (rule ip_cstr_to_number_fails)
  have C: "ip_cstr_to_number ip sizeof_ip 0
        = assemble (map (\<lambda>(j, v). min v UINTMAX_MAX) (parts_below sizeof_ip ip))"
    using ip_cstr_to_number_parts [of ip sizeof_ip] by (simp only: address_of_def)
  show ?thesis
    by (rule conjI [OF A conjI [OF B C]])
qed

theorem C7_no_range_check_witness:
  "parts_below 13 ''1.256.1'' = [(0, 1), (2, 256), (6, 1)]
   \<and> ip_cstr_to_number ''1.256.1'' 13 0 = 0x02000001
   \<and> (\<exists>c \<in> set (take 13 (takeWhile (\<lambda>c. c \<noteq> NUL) ''1.256.1'')). is_dec_digit c)
   \<and> parts_below 13 ''1.1.1.0400'' = [(0, 1), (2, 1), (4, 1), (6, 256)]
   \<and> ip_cstr_to_number ''1.1.1.0400'' 13 0 = 0x01010200
   \<and> parts_below 13 ''1.0.0.256'' = [(0, 1), (2, 0), (4, 0), (6, 256)]
   \<and> ip_cstr_to_number ''1.0.0.256'' 13 0 = 0x01000100
   \<and> parts_below 13 ''1.1.1.18446744073709551616''
        = [(0, 1), (2, 1), (4, 1), (6, 18446744073709551616)]
   \<and> ip_cstr_to_number ''1.1.1.18446744073709551616'' 13 0 = 0x010100FF"
proof -
  have p1: "parts_below 13 ''1.256.1'' = [(0, 1), (2, 256), (6, 1)]"
    by code_simp
  have p2: "parts_below 13 ''1.1.1.0400'' = [(0, 1), (2, 1), (4, 1), (6, 256)]"
    by code_simp
  have p3: "parts_below 13 ''1.0.0.256'' = [(0, 1), (2, 0), (4, 0), (6, 256)]"
    by code_simp
  note th1 = C7_no_range_check [of "''1.256.1''" 13 0]
  have r1: "ip_cstr_to_number ''1.256.1'' 13 0 = 0x02000001"
    using conjunct2 [OF conjunct2 [OF th1]] unfolding p1 by (simp add: UINTMAX_MAX_def)
  have "ip_cstr_to_number ''1.256.1'' 13 0 \<noteq> - 1"
    using conjunct1 [OF conjunct2 [OF th1]] unfolding p1 by simp
  then have d1: "\<exists>c \<in> set (take 13 (takeWhile (\<lambda>c. c \<noteq> NUL) ''1.256.1'')). is_dec_digit c"
    using conjunct1 [OF th1] by blast
  have r2: "ip_cstr_to_number ''1.1.1.0400'' 13 0 = 0x01010200"
    using conjunct2 [OF conjunct2 [OF C7_no_range_check [of "''1.1.1.0400''" 13 0]]]
    unfolding p2 by (simp add: UINTMAX_MAX_def)
  have r3: "ip_cstr_to_number ''1.0.0.256'' 13 0 = 0x01000100"
    using conjunct2 [OF conjunct2 [OF C7_no_range_check [of "''1.0.0.256''" 13 0]]]
    unfolding p3 by (simp add: UINTMAX_MAX_def)
  have p4: "parts_below 13 ''1.1.1.18446744073709551616''
        = [(0, 1), (2, 1), (4, 1), (6, 18446744073709551616)]"
    by code_simp
  have r4: "ip_cstr_to_number ''1.1.1.18446744073709551616'' 13 0 = 0x010100FF"
    using conjunct2 [OF conjunct2 [OF C7_no_range_check [of "''1.1.1.18446744073709551616''" 13 0]]]
    unfolding p4 by (simp add: UINTMAX_MAX_def)
  show ?thesis
    using p1 r1 d1 p2 r2 p3 r3 p4 r4 by blast
qed

text \<open>
  The claim as stated, with every oversized value accepted verbatim, fails for a part
  above \<open>2^64 - 1\<close>: the fourth part of \<open>1.1.1.18446744073709551616\<close> is \<open>2^64\<close>,
  which taken verbatim adds nothing modulo \<open>2^32\<close> and would give \<open>0x01010100\<close>; the
  parser returns \<open>0x010100FF\<close>.
\<close>

theorem C7_counterexample:
  "ip_parts ''1.1.1.18446744073709551616'' = [(0, 1), (2, 1), (4, 1), (6, 2 ^ 64)]
   \<and> assemble (map snd (parts_below 13 ''1.1.1.18446744073709551616'')) = 0x01010100
   \<and> ip_cstr_to_number ''1.1.1.18446744073709551616'' 13 0 = 0x010100FF"
  by code_simp

section \<open>The MAC parser\<close>

text \<open>One round of the loop: it stops, it skips a character, or it takes a digit.\<close>

lemma mac_loop_stop:
  assumes "\<not> (i < 17 \<and> k < 12 \<and> cstr_at s i \<noteq> NUL)"
  shows "mac_loop s i no k = (no, k)"
  by (subst mac_loop.simps) (simp only: assms if_False)

lemma mac_loop_skip:
  assumes "i < 17" "k < 12" "cstr_at s i \<noteq> NUL" "\<not> is_hex_digit (cstr_at s i)"
  shows "mac_loop s i no k = mac_loop s (i + 1) no k"
proof -
  have cond: "i < 17 \<and> k < 12 \<and> cstr_at s i \<noteq> NUL"
    using assms by simp
  have n: "\<not> (code CHR ''0'' \<le> code (cstr_at s i) \<and> code CHR ''9'' \<ge> code (cstr_at s i))"
      "\<not> (code CHR ''A'' \<le> code (cstr_at s i) \<and> code CHR ''F'' \<ge> code (cstr_at s i))"
      "\<not> (code CHR ''a'' \<le> code (cstr_at s i) \<and> code CHR ''f'' \<ge> code (cstr_at s i))"
    using assms(4) unfolding is_hex_digit_def by blast+
  show ?thesis
    by (subst mac_loop.simps) (simp only: cond n Let_def if_True if_False simp_thms)
qed

lemma mac_loop_digit:
  assumes "i < 17" "k < 12" "cstr_at s i \<noteq> NUL" "is_hex_digit (cstr_at s i)"
  shows "mac_loop s i no k
         = mac_loop s (i + 1) (push_bit 4 no + word_of_int (hex_digit_value (cstr_at s i))) (k + 1)"
proof -
  let ?c = "cstr_at s i"
  have cond: "i < 17 \<and> k < 12 \<and> cstr_at s i \<noteq> NUL"
    using assms by simp
  consider (dec) "code CHR ''0'' \<le> code ?c \<and> code CHR ''9'' \<ge> code ?c"
    | (upper) "\<not> (code CHR ''0'' \<le> code ?c \<and> code CHR ''9'' \<ge> code ?c)"
        "code CHR ''A'' \<le> code ?c \<and> code CHR ''F'' \<ge> code ?c"
    | (lower) "\<not> (code CHR ''0'' \<le> code ?c \<and> code CHR ''9'' \<ge> code ?c)"
        "\<not> (code CHR ''A'' \<le> code ?c \<and> code CHR ''F'' \<ge> code ?c)"
        "code CHR ''a'' \<le> code ?c \<and> code CHR ''f'' \<ge> code ?c"
    using assms(4) unfolding is_hex_digit_def by blast
  then show ?thesis
  proof cases
    case dec
    then have v: "code ?c - code CHR ''0'' = hex_digit_value ?c"
      by (simp add: hex_digit_value_def)
    show ?thesis
      by (subst mac_loop.simps) (simp only: cond dec v Let_def if_True if_False simp_thms)
  next
    case upper
    then have v: "code ?c + 10 - code CHR ''A'' = hex_digit_value ?c"
      by (auto simp: hex_digit_value_def code_def)
    show ?thesis
      by (subst mac_loop.simps) (simp only: cond upper v Let_def if_True if_False simp_thms)
  next
    case lower
    then have v: "code ?c + 10 - code CHR ''a'' = hex_digit_value ?c"
      by (auto simp: hex_digit_value_def code_def)
    show ?thesis
      by (subst mac_loop.simps) (simp only: cond lower v Let_def if_True if_False simp_thms)
  qed
qed

lemma mac_loop_fold:
  "17 - i = n \<Longrightarrow> k \<le> 12 \<Longrightarrow>
   mac_loop s i no k =
     (foldl (\<lambda>a c. push_bit 4 a + word_of_int (hex_digit_value c)) no
        (take (12 - k) (filter is_hex_digit (scanned s 17 i))),
      k + min (12 - k) (length (filter is_hex_digit (scanned s 17 i))))"
proof (induction n arbitrary: i no k)
  case 0
  then show ?case
    by (simp add: mac_loop_stop scanned_stop)
next
  case (Suc n)
  show ?case
  proof (cases "k < 12 \<and> cstr_at s i \<noteq> NUL")
    case False
    then show ?thesis
      using Suc.prems by (auto simp: mac_loop_stop scanned_stop)
  next
    case True
    from Suc.prems have i: "i < 17" and n: "17 - (i + 1) = n"
      by simp_all
    from True i have step: "scanned s 17 i = cstr_at s i # scanned s 17 (i + 1)"
      by (simp add: scanned_step)
    show ?thesis
    proof (cases "is_hex_digit (cstr_at s i)")
      case hex: True
      have tk: "take (12 - k) (x # xs) = x # take (12 - (k + 1)) xs" for x :: char and xs
        using True by (simp add: take_Cons')
      have "mac_loop s i no k
         = mac_loop s (i + 1) (push_bit 4 no + word_of_int (hex_digit_value (cstr_at s i))) (k + 1)"
        using mac_loop_digit i True hex by simp
      also have "\<dots> = (foldl (\<lambda>a c. push_bit 4 a + word_of_int (hex_digit_value c))
                          (push_bit 4 no + word_of_int (hex_digit_value (cstr_at s i)))
                          (take (12 - (k + 1)) (filter is_hex_digit (scanned s 17 (i + 1)))),
                        k + 1 + min (12 - (k + 1)) (length (filter is_hex_digit (scanned s 17 (i + 1)))))"
        using True by (intro Suc.IH [OF n]) simp
      finally show ?thesis
        using True hex by (auto simp: step tk min_def)
    next
      case nohex: False
      have "mac_loop s i no k = mac_loop s (i + 1) no k"
        using mac_loop_skip i True nohex by simp
      then show ?thesis
        using Suc.IH [OF n, of k no] Suc.prems(2) nohex by (simp add: step)
    qed
  qed
qed

lemma hex_fold_word:
  "foldl (\<lambda>a c. push_bit 4 a + word_of_int (hex_digit_value c)) (word_of_int v :: 64 word) ds
   = word_of_int (foldl (\<lambda>v c. 16 * v + hex_digit_value c) v ds)"
proof (induction ds arbitrary: v)
  case Nil
  show ?case by simp
next
  case (Cons c ds)
  have "push_bit 4 (word_of_int v :: 64 word) + word_of_int (hex_digit_value c)
        = word_of_int (16 * v + hex_digit_value c)"
    by (simp add: push_bit_eq_mult)
  then show ?case
    using Cons.IH [of "16 * v + hex_digit_value c"] by simp
qed


lemma hex_digit_value_range:
  "is_hex_digit c \<Longrightarrow> 0 \<le> hex_digit_value c \<and> hex_digit_value c < 16"
  by (auto simp: is_hex_digit_def hex_digit_value_def code_def)

lemma hex_fold_bound:
  "list_all is_hex_digit ds \<Longrightarrow> 0 \<le> v \<Longrightarrow> v < 16 ^ m \<Longrightarrow>
     0 \<le> foldl (\<lambda>v c. 16 * v + hex_digit_value c) v ds
     \<and> foldl (\<lambda>v c. 16 * v + hex_digit_value c) v ds < 16 ^ (m + length ds)"
proof (induction ds arbitrary: v m)
  case Nil
  then show ?case by simp
next
  case (Cons c ds)
  from Cons.prems have c: "0 \<le> hex_digit_value c" "hex_digit_value c < 16"
    using hex_digit_value_range [of c] by simp_all
  have "0 \<le> 16 * v + hex_digit_value c"
    using c Cons.prems by simp
  moreover have "16 * v + hex_digit_value c < 16 ^ (m + 1)"
  proof -
    have "v + 1 \<le> 16 ^ m" using Cons.prems by simp
    then have "16 * (v + 1) \<le> 16 * 16 ^ m" by simp
    then show ?thesis using c by simp
  qed
  ultimately show ?case
    using Cons.IH [of "16 * v + hex_digit_value c" "m + 1"] Cons.prems by simp
qed

lemma hex_value_bound:
  assumes "list_all is_hex_digit ds" "length ds \<le> 12"
  shows "0 \<le> hex_value ds \<and> hex_value ds < 2 ^ 48"
proof -
  have "0 \<le> hex_value ds \<and> hex_value ds < 16 ^ (0 + length ds)"
    unfolding hex_value_def by (rule hex_fold_bound) (use assms in simp_all)
  moreover have "(16 :: int) ^ length ds \<le> 16 ^ 12"
    using assms by (intro power_increasing) simp_all
  ultimately show ?thesis by simp
qed

lemma word64_of_int_not_minus1:
  assumes "0 \<le> v" "v < 2 ^ 48"
  shows "(word_of_int v :: 64 word) \<noteq> - 1"
proof
  assume "(word_of_int v :: 64 word) = - 1"
  then have "uint (word_of_int v :: 64 word) = uint (- 1 :: 64 word)" by simp
  moreover have "uint (word_of_int v :: 64 word) = v"
    using assms by (simp add: uint_word_of_int take_bit_eq_mod)
  ultimately show False
    using assms by (simp add: unsigned_minus_1_eq_mask mask_eq_exp_minus_1)
qed

lemma mac_cstr_to_number_eq:
  "mac_cstr_to_number s =
     (if 12 \<le> length (filter is_hex_digit (scanned s 17 0))
      then word_of_int (hex_value (take 12 (filter is_hex_digit (scanned s 17 0))))
      else - 1)"
proof -
  have "mac_loop s 0 0 0 =
     (word_of_int (hex_value (take 12 (filter is_hex_digit (scanned s 17 0)))),
      min 12 (length (filter is_hex_digit (scanned s 17 0))))"
    using mac_loop_fold [of 0 17 0 s 0] hex_fold_word [of 0]
    by (simp add: hex_value_def)
  then show ?thesis
    by (auto simp: mac_cstr_to_number_def min_def)
qed

text \<open>Upper and lower case denote the same digits.\<close>

lemma code_range: "0 \<le> code c \<and> code c < 256"
proof -
  have "0 \<le> (of_char c :: int) mod 256"
    by (rule pos_mod_sign) simp
  moreover have "(of_char c :: int) mod 256 < 256"
    by (rule pos_mod_bound) simp
  ultimately show ?thesis
    by (simp only: of_char_mod_256 code_def)
qed

lemma code_toupper:
  "code (toupper c) = (if code CHR ''a'' \<le> code c \<and> code c \<le> code CHR ''z'' then code c - 32 else code c)"
  using code_range [of c] by (simp add: toupper_def code_def)

lemma code_eq_iff: "code x = code y \<longleftrightarrow> x = y"
  by (simp add: code_def)

lemma toupper_NUL: "toupper c \<noteq> NUL \<longleftrightarrow> c \<noteq> NUL"
proof -
  have z: "code NUL = 0"
    by (simp add: NUL_def code_def)
  have "code (toupper c) = 0 \<longleftrightarrow> code c = 0"
    unfolding code_toupper by (simp add: code_def)
  then show ?thesis
    using code_eq_iff [of "toupper c" NUL] code_eq_iff [of c NUL] by (simp add: z)
qed

lemma is_hex_digit_toupper: "is_hex_digit (toupper c) = is_hex_digit c"
proof (cases "code CHR ''a'' \<le> code c \<and> code c \<le> code CHR ''z''")
  case True
  then have "code (toupper c) = code c - 32"
    by (simp add: code_toupper)
  with True show ?thesis
    unfolding is_hex_digit_def by (auto simp: code_def)
next
  case False
  then have "toupper c = c"
    by (simp only: toupper_def if_False)
  then show ?thesis by simp
qed

lemma hex_digit_value_toupper:
  assumes "is_hex_digit c"
  shows "hex_digit_value (toupper c) = hex_digit_value c"
proof (cases "code CHR ''a'' \<le> code c \<and> code c \<le> code CHR ''z''")
  case True
  then have "code (toupper c) = code c - 32"
    by (simp add: code_toupper)
  with True assms show ?thesis
    unfolding is_hex_digit_def hex_digit_value_def by (auto simp: code_def)
next
  case False
  then have "toupper c = c"
    by (simp only: toupper_def if_False)
  then show ?thesis by simp
qed

lemma hex_value_Cons:
  "hex_value (c # cs) = hex_digit_value c * 16 ^ length cs + hex_value cs"
proof -
  have "foldl (\<lambda>v c. 16 * v + hex_digit_value c) v ds
        = v * 16 ^ length ds + foldl (\<lambda>v c. 16 * v + hex_digit_value c) 0 ds" for v ds
  proof (induction ds arbitrary: v)
    case Nil
    show ?case by simp
  next
    case (Cons d ds)
    show ?case
      using Cons.IH [of "16 * v + hex_digit_value d"] Cons.IH [of "hex_digit_value d"]
      by (simp add: algebra_simps)
  qed
  from this [of "hex_digit_value c" cs] show ?thesis
    by (simp add: hex_value_def)
qed

lemma scanned_map_toupper: "scanned (map toupper s) n i = map toupper (scanned s n i)"
proof -
  have "(\<lambda>c. c \<noteq> NUL) \<circ> toupper = (\<lambda>c. c \<noteq> NUL)"
    by (rule ext) (simp add: toupper_NUL)
  then show ?thesis
    by (simp add: scanned_def drop_map takeWhile_map take_map)
qed

lemma filter_hex_map_toupper:
  "filter is_hex_digit (map toupper xs) = map toupper (filter is_hex_digit xs)"
proof -
  have "is_hex_digit \<circ> toupper = is_hex_digit"
    by (rule ext) (simp add: is_hex_digit_toupper)
  then show ?thesis
    by (simp add: filter_map)
qed

lemma hex_fold_map_toupper:
  "list_all is_hex_digit ds \<Longrightarrow>
     foldl (\<lambda>v c. 16 * v + hex_digit_value c) v (map toupper ds)
     = foldl (\<lambda>v c. 16 * v + hex_digit_value c) v ds"
  by (induction ds arbitrary: v) (simp_all add: hex_digit_value_toupper)

lemma mac_cstr_to_number_toupper:
  "mac_cstr_to_number (map toupper s) = mac_cstr_to_number s"
proof -
  let ?hs = "filter is_hex_digit (scanned s 17 0)"
  have "list_all is_hex_digit (take 12 ?hs)"
    by (auto simp: list_all_iff dest: in_set_takeD)
  then have "hex_value (map toupper (take 12 ?hs)) = hex_value (take 12 ?hs)"
    by (simp add: hex_value_def hex_fold_map_toupper)
  then show ?thesis
    by (simp add: mac_cstr_to_number_eq scanned_map_toupper filter_hex_map_toupper take_map)
qed

text \<open>
  Claim C4, amended. The MAC parser succeeds if and only if there are at least 12
  hexadecimal digits among the first 17 characters of the input (in front of the
  terminator). Characters that are no hexadecimal digits are skipped without being
  counted; fewer than 12 digits among the first 17 characters are a failure, however
  many digits follow behind them; the loop stops at the twelfth digit, so that more
  than 12 digits among the first 17 characters are no failure: the parser succeeds
  with the first twelve. On success the result is the number that these twelve digits
  denote, the first one being the most significant nibble; it lies below \<open>2^48\<close>.
  Upper and lower case give the same result.
  \<open>FF:FF:FF:FF:FF:FF\<close> yields \<open>0xFFFFFFFFFFFF\<close>; \<open>AABBCCDDEEFF\<close> yields
  \<open>0xAABBCCDDEEFF\<close>, as \<open>AA:BB:CC:DD:EE:FF\<close> does; \<open>AA:BB\<close> fails, and so does
  \<open>AA::BB::CC::DD::EE::FF::00\<close>, which has only 9 of its 14 digits among its first 17
  characters.
\<close>

theorem C4_mac_parser:
  "(mac_cstr_to_number s \<noteq> - 1
      \<longleftrightarrow> 12 \<le> length (filter is_hex_digit (take 17 (takeWhile (\<lambda>c. c \<noteq> NUL) s))))
   \<and> (12 \<le> length (filter is_hex_digit (take 17 (takeWhile (\<lambda>c. c \<noteq> NUL) s))) \<longrightarrow>
        mac_cstr_to_number s
          = word_of_int (hex_value (take 12 (filter is_hex_digit (take 17 (takeWhile (\<lambda>c. c \<noteq> NUL) s)))))
        \<and> uint (mac_cstr_to_number s)
          = hex_value (take 12 (filter is_hex_digit (take 17 (takeWhile (\<lambda>c. c \<noteq> NUL) s))))
        \<and> uint (mac_cstr_to_number s) < 2 ^ 48)
   \<and> mac_cstr_to_number (map toupper s) = mac_cstr_to_number s
   \<and> mac_cstr_to_number ''FF:FF:FF:FF:FF:FF'' = 0xFFFFFFFFFFFF
   \<and> mac_cstr_to_number ''AA:BB:CC:DD:EE:FF'' = 0xAABBCCDDEEFF
   \<and> mac_cstr_to_number ''AABBCCDDEEFF'' = 0xAABBCCDDEEFF
   \<and> mac_cstr_to_number ''AA:BB'' = - 1
   \<and> mac_cstr_to_number ''AA::BB::CC::DD::EE::FF::00'' = - 1"
proof -
  let ?hs = "filter is_hex_digit (take 17 (takeWhile (\<lambda>c. c \<noteq> NUL) s))"
  have sc: "scanned s 17 0 = take 17 (takeWhile (\<lambda>c. c \<noteq> NUL) s)"
    by (simp add: scanned_def)
  have eq: "mac_cstr_to_number s = (if 12 \<le> length ?hs then word_of_int (hex_value (take 12 ?hs)) else - 1)"
    using mac_cstr_to_number_eq [of s] by (simp only: sc)
  have "list_all is_hex_digit (take 12 ?hs)"
    by (auto simp: list_all_iff dest: in_set_takeD)
  then have b: "0 \<le> hex_value (take 12 ?hs) \<and> hex_value (take 12 ?hs) < 2 ^ 48"
    by (rule hex_value_bound) simp
  then have ne: "(word_of_int (hex_value (take 12 ?hs)) :: 64 word) \<noteq> - 1"
    by (intro word64_of_int_not_minus1) simp_all
  have u: "uint (word_of_int (hex_value (take 12 ?hs)) :: 64 word) = hex_value (take 12 ?hs)"
    using b by (simp add: uint_word_of_int take_bit_eq_mod)
  have 1: "mac_cstr_to_number s \<noteq> - 1 \<longleftrightarrow> 12 \<le> length ?hs"
    using ne by (simp add: eq)
  have 2: "12 \<le> length ?hs \<longrightarrow>
        mac_cstr_to_number s = word_of_int (hex_value (take 12 ?hs))
        \<and> uint (mac_cstr_to_number s) = hex_value (take 12 ?hs)
        \<and> uint (mac_cstr_to_number s) < 2 ^ 48"
    using b u by (simp add: eq)
  have 3: "mac_cstr_to_number ''FF:FF:FF:FF:FF:FF'' = 0xFFFFFFFFFFFF"
    by code_simp
  have 4: "mac_cstr_to_number ''AA:BB:CC:DD:EE:FF'' = 0xAABBCCDDEEFF"
    by code_simp
  have 5: "mac_cstr_to_number ''AABBCCDDEEFF'' = 0xAABBCCDDEEFF"
    by code_simp
  have 6: "mac_cstr_to_number ''AA:BB'' = - 1"
    by code_simp
  have 7: "mac_cstr_to_number ''AA::BB::CC::DD::EE::FF::00'' = - 1"
    by code_simp
  show ?thesis
    using 1 2 mac_cstr_to_number_toupper [of s] 3 4 5 6 7 by blast
qed

theorem C4_mac_parser_witness:
  "12 \<le> length (filter is_hex_digit (take 17 (takeWhile (\<lambda>c. c \<noteq> NUL) ''aa:bb:cc:dd:ee:ff'')))
   \<and> mac_cstr_to_number ''aa:bb:cc:dd:ee:ff'' \<noteq> - 1
   \<and> uint (mac_cstr_to_number ''aa:bb:cc:dd:ee:ff'') = hex_value ''aabbccddeeff''
   \<and> hex_value ''aabbccddeeff'' = 0xAABBCCDDEEFF
   \<and> mac_cstr_to_number (map toupper ''aa:bb:cc:dd:ee:ff'') = mac_cstr_to_number ''aa:bb:cc:dd:ee:ff''
   \<and> map toupper ''aa:bb:cc:dd:ee:ff'' = ''AA:BB:CC:DD:EE:FF''"
proof -
  have f: "filter is_hex_digit (take 17 (takeWhile (\<lambda>c. c \<noteq> NUL) ''aa:bb:cc:dd:ee:ff'')) = ''aabbccddeeff''"
    by code_simp
  have v: "hex_value ''aabbccddeeff'' = 0xAABBCCDDEEFF"
    by code_simp
  have m: "map toupper ''aa:bb:cc:dd:ee:ff'' = ''AA:BB:CC:DD:EE:FF''"
    by code_simp
  let ?s = "''aa:bb:cc:dd:ee:ff''"
  have l: "12 \<le> length (filter is_hex_digit (take 17 (takeWhile (\<lambda>c. c \<noteq> NUL) ?s)))"
    unfolding f by simp
  note th = C4_mac_parser [of ?s]
  have 1: "mac_cstr_to_number ?s \<noteq> - 1"
    using th l by blast
  have "uint (mac_cstr_to_number ?s)
        = hex_value (take 12 (filter is_hex_digit (take 17 (takeWhile (\<lambda>c. c \<noteq> NUL) ?s))))"
    using th l by blast
  then have 2: "uint (mac_cstr_to_number ?s) = hex_value ''aabbccddeeff''"
    unfolding f by simp
  have 3: "mac_cstr_to_number (map toupper ?s) = mac_cstr_to_number ?s"
    using th by blast
  show ?thesis
    using l 1 2 v 3 m by blast
qed

text \<open>
  The claim as stated fails twice: \<open>AABBCCDDEEFF\<close> does not yield
  \<open>0xFFFFFFFFFFFF\<close>, and \<open>AABBCCDDEEFF00\<close>, which has 14 hexadecimal digits, all among
  its first 17 characters, is no failure.
\<close>

theorem C4_counterexample:
  "mac_cstr_to_number ''AABBCCDDEEFF'' \<noteq> 0xFFFFFFFFFFFF
   \<and> length (filter is_hex_digit ''AABBCCDDEEFF00'') = 14
   \<and> mac_cstr_to_number ''AABBCCDDEEFF00'' \<noteq> - 1"
  by code_simp

section \<open>The packet\<close>

text \<open>The sixteen rounds of the loop, written out.\<close>

lemma fill_data_unroll:
  "fill_data 1 m5 m4 m3 m2 m1 m0 data_init
   = map Some (replicate 6 0xFF @ concat (replicate 16 [m5, m4, m3, m2, m1, m0]))"
  by (simp add: fill_data.simps data_init_def sizeof_data_def numeral_eq_Suc)

lemma octet_drop_bit:
  "(word_of_int (uint (m :: 64 word) div 256 ^ k) :: 8 word) = ucast (drop_bit (8 * k) m)"
proof -
  have "unat (drop_bit (8 * k) m) = unat m div 2 ^ (8 * k)"
    by (simp only: unat_drop_bit_eq) (simp only: drop_bit_eq_div)
  also have "(2 :: nat) ^ (8 * k) = 256 ^ k"
    by (simp add: power_mult)
  finally have "unat m div 256 ^ k = unat (drop_bit (8 * k) m)"
    by simp
  moreover have "uint m div 256 ^ k = int (unat m div 256 ^ k)"
    by (simp add: zdiv_int)
  ultimately have "uint m div 256 ^ k = uint (drop_bit (8 * k) m)"
    by simp
  then show ?thesis
    by (simp only: of_int_uint)
qed

lemma GET_BYTE_octets:
  "ucast (GET_BYTE_5 m) = (ucast (drop_bit 40 m) :: 8 word)"
  "ucast (GET_BYTE_4 m) = (ucast (drop_bit 32 m) :: 8 word)"
  "ucast (GET_BYTE_3 m) = (ucast (drop_bit 24 m) :: 8 word)"
  "ucast (GET_BYTE_2 m) = (ucast (drop_bit 16 m) :: 8 word)"
  "ucast (GET_BYTE_1 m) = (ucast (drop_bit 8 m) :: 8 word)"
  "ucast (GET_BYTE_0 m) = (ucast m :: 8 word)"
proof -
  have m64: "(0xFF :: 64 word) = mask 8" and m32: "(0xFF :: 32 word) = mask 8"
    by (simp_all add: mask_eq_exp_minus_1)
  show "ucast (GET_BYTE_5 m) = (ucast (drop_bit 40 m) :: 8 word)"
    unfolding GET_BYTE_5_def m64 by (rule bit_word_eqI) (auto simp: bit_simps)
  show "ucast (GET_BYTE_4 m) = (ucast (drop_bit 32 m) :: 8 word)"
    unfolding GET_BYTE_4_def m64 by (rule bit_word_eqI) (auto simp: bit_simps)
  show "ucast (GET_BYTE_3 m) = (ucast (drop_bit 24 m) :: 8 word)"
    unfolding GET_BYTE_3_def m32 by (rule bit_word_eqI) (auto simp: bit_simps)
  show "ucast (GET_BYTE_2 m) = (ucast (drop_bit 16 m) :: 8 word)"
    unfolding GET_BYTE_2_def m32 by (rule bit_word_eqI) (auto simp: bit_simps)
  show "ucast (GET_BYTE_1 m) = (ucast (drop_bit 8 m) :: 8 word)"
    unfolding GET_BYTE_1_def m32 by (rule bit_word_eqI) (auto simp: bit_simps)
  show "ucast (GET_BYTE_0 m) = (ucast m :: 8 word)"
    unfolding GET_BYTE_0_def m32 by (rule bit_word_eqI) (auto simp: bit_simps)
qed

lemma GET_BYTE_mac_octets:
  "[ucast (GET_BYTE_5 m), ucast (GET_BYTE_4 m), ucast (GET_BYTE_3 m),
    ucast (GET_BYTE_2 m), ucast (GET_BYTE_1 m), ucast (GET_BYTE_0 m)] = mac_octets m"
  using octet_drop_bit [of m 5] octet_drop_bit [of m 4] octet_drop_bit [of m 3]
    octet_drop_bit [of m 2] octet_drop_bit [of m 1] octet_drop_bit [of m 0]
  by (simp add: mac_octets_def GET_BYTE_octets)

lemma build_packet_magic: "build_packet m data_init = map Some (magic_packet m)"
proof -
  have "build_packet m data_init
        = map Some (replicate 6 0xFF @ concat (replicate 16
            [ucast (GET_BYTE_5 m), ucast (GET_BYTE_4 m), ucast (GET_BYTE_3 m),
             ucast (GET_BYTE_2 m), ucast (GET_BYTE_1 m), ucast (GET_BYTE_0 m)]))"
    by (simp only: build_packet_def Let_def fill_data_unroll)
  then show ?thesis
    by (simp only: GET_BYTE_mac_octets magic_packet_def)
qed

lemma length_magic_packet: "length (magic_packet m) = 102"
  by (simp add: magic_packet_def mac_octets_def length_concat sum_list_replicate)

section \<open>The local state\<close>

text \<open>What the stores and \<open>emit\<close> do to each component of the state.\<close>

lemma emit_sel [simp]:
  "l_return_value (emit e s) = l_return_value s"
  "l_sockfd (emit e s) = l_sockfd s"
  "l_data (emit e s) = l_data s"
  "l_wol (emit e s) = l_wol s"
  "l_effects (emit e s) = l_effects s @ [e]"
  by (simp_all add: emit_def)

lemma store_last_error_sel [simp]:
  "l_return_value (store_last_error v s) = l_return_value s"
  "l_sockfd (store_last_error v s) = l_sockfd s"
  "l_data (store_last_error v s) = l_data s"
  "l_wol (store_last_error v s) = map_option (\<lambda>w. w\<lparr>last_error := v\<rparr>) (l_wol s)"
  "l_effects (store_last_error v s)
     = l_effects s @ (case l_wol s of None \<Rightarrow> [] | Some w \<Rightarrow> [Store_last_error v])"
  by (simp_all add: store_last_error_def split: option.splits)

lemma store_ip_v4_sel [simp]:
  "l_return_value (store_ip_v4 v s) = l_return_value s"
  "l_sockfd (store_ip_v4 v s) = l_sockfd s"
  "l_data (store_ip_v4 v s) = l_data s"
  "l_wol (store_ip_v4 v s) = map_option (\<lambda>w. w\<lparr>ip_v4 := v\<rparr>) (l_wol s)"
  "l_effects (store_ip_v4 v s)
     = l_effects s @ (case l_wol s of None \<Rightarrow> [] | Some w \<Rightarrow> [Store_ip_v4 v])"
  by (simp_all add: store_ip_v4_def split: option.splits)

lemma store_mac_sel [simp]:
  "l_return_value (store_mac v s) = l_return_value s"
  "l_sockfd (store_mac v s) = l_sockfd s"
  "l_data (store_mac v s) = l_data s"
  "l_wol (store_mac v s) = map_option (\<lambda>w. w\<lparr>mac := v\<rparr>) (l_wol s)"
  "l_effects (store_mac v s)
     = l_effects s @ (case l_wol s of None \<Rightarrow> [] | Some w \<Rightarrow> [Store_mac v])"
  by (simp_all add: store_mac_def split: option.splits)

lemma store_return_value_sel [simp]:
  "l_return_value (store_return_value v s) = l_return_value s"
  "l_sockfd (store_return_value v s) = l_sockfd s"
  "l_data (store_return_value v s) = l_data s"
  "l_wol (store_return_value v s) = map_option (\<lambda>w. w\<lparr>return_value := v\<rparr>) (l_wol s)"
  "l_effects (store_return_value v s)
     = l_effects s @ (case l_wol s of None \<Rightarrow> [] | Some w \<Rightarrow> [Store_return_value v])"
  by (simp_all add: store_return_value_def split: option.splits)

lemma fail_sel [simp]:
  "l_return_value (fail e v s) = e"
  "l_sockfd (fail e v s) = l_sockfd s"
  "l_data (fail e v s) = l_data s"
  "l_wol (fail e v s) = map_option (\<lambda>w. w\<lparr>last_error := v\<rparr>) (l_wol s)"
  "l_effects (fail e v s)
     = l_effects s @ (case l_wol s of None \<Rightarrow> [] | Some w \<Rightarrow> [Store_last_error v])"
  by (simp_all add: fail_def)

lemmas wol_defs = wake_on_lan_def locals_init_def wol_do_while_def wol_startup_def wol_socket_def
  wol_setsockopt_def wol_sendto_def wol_release_def Let_def


lemma sendto_payload:
  "take sizeof_data (build_packet m data_init) = map Some (magic_packet m)"
  by (simp add: build_packet_magic sizeof_data_def length_magic_packet)

section \<open>The diagnostics record\<close>

text \<open>
  Claim C2. If the IPv4 parser fails, \<open>wake_on_lan\<close> returns
  \<open>WAKE_ON_LAN_ERRORS_IP\<close>, the MAC parser is not called, nothing is stored into
  the field \<open>mac\<close>, which keeps its value, and the whole outcome does not depend on the
  MAC text. If both parsers succeed, the first effects of the run are the call of the
  IPv4 parser, the store of the parsed address, the call of the MAC parser and the
  store of the parsed MAC (without the two stores for a null pointer): every call
  into the operating system comes after them, and the two fields keep these values to
  the end. With a record supplied, the last effect of every run is the store of the
  returned result code into \<open>return_value\<close>.
\<close>

theorem C2_diagnostics_order:
  assumes run: "wake_on_lan pf os wol ip_text port mac_text = (rc, wol', effs)"
  shows "(ip_cstr_to_number ip_text 13 0 = - 1 \<longrightarrow>
            rc = WAKE_ON_LAN_ERRORS_IP
            \<and> Call_mac_cstr_to_number \<notin> set effs
            \<and> (\<forall>v. Store_mac v \<notin> set effs)
            \<and> map_option mac wol' = map_option mac wol
            \<and> (\<forall>mac_text'. wake_on_lan pf os wol ip_text port mac_text' = (rc, wol', effs)))
       \<and> (ip_cstr_to_number ip_text 13 0 \<noteq> - 1 \<and> mac_cstr_to_number mac_text \<noteq> - 1 \<longrightarrow>
            (\<exists>rest. effs =
               (case wol of
                  None \<Rightarrow> [Call_ip_cstr_to_number, Call_mac_cstr_to_number]
                | Some w \<Rightarrow>
                    [Call_ip_cstr_to_number, Store_ip_v4 (ucast (ip_cstr_to_number ip_text 13 0)),
                     Call_mac_cstr_to_number, Store_mac (mac_cstr_to_number mac_text)]) @ rest)
            \<and> map_option ip_v4 wol' = map_option (\<lambda>w. ucast (ip_cstr_to_number ip_text 13 0)) wol
            \<and> map_option mac wol' = map_option (\<lambda>w. mac_cstr_to_number mac_text) wol)
       \<and> (wol \<noteq> None \<longrightarrow>
            effs \<noteq> [] \<and> last effs = Store_return_value rc
            \<and> map_option return_value wol' = Some rc)
       \<and> (wol = None \<longrightarrow> wol' = None)"
proof -
  have A: "ip_cstr_to_number ip_text 13 0 = - 1 \<longrightarrow>
            rc = WAKE_ON_LAN_ERRORS_IP
            \<and> Call_mac_cstr_to_number \<notin> set effs
            \<and> (\<forall>v. Store_mac v \<notin> set effs)
            \<and> map_option mac wol' = map_option mac wol
            \<and> (\<forall>mac_text'. wake_on_lan pf os wol ip_text port mac_text' = (rc, wol', effs))"
    using run by (cases wol; cases pf) (auto simp: wol_defs)
  have B: "ip_cstr_to_number ip_text 13 0 \<noteq> - 1 \<and> mac_cstr_to_number mac_text \<noteq> - 1 \<longrightarrow>
            (\<exists>rest. effs =
               (case wol of
                  None \<Rightarrow> [Call_ip_cstr_to_number, Call_mac_cstr_to_number]
                | Some w \<Rightarrow>
                    [Call_ip_cstr_to_number, Store_ip_v4 (ucast (ip_cstr_to_number ip_text 13 0)),
                     Call_mac_cstr_to_number, Store_mac (mac_cstr_to_number mac_text)]) @ rest)
            \<and> map_option ip_v4 wol' = map_option (\<lambda>w. ucast (ip_cstr_to_number ip_text 13 0)) wol
            \<and> map_option mac wol' = map_option (\<lambda>w. mac_cstr_to_number mac_text) wol"
    using run by (cases wol; cases pf) (auto simp: wol_defs split: if_splits)
  have C: "wol \<noteq> None \<longrightarrow>
            effs \<noteq> [] \<and> last effs = Store_return_value rc
            \<and> map_option return_value wol' = Some rc"
    using run by (cases pf) (auto simp: wol_defs split: if_splits)
  have D: "wol = None \<longrightarrow> wol' = None"
    using run by (cases pf) (auto simp: wol_defs split: if_splits)
  show ?thesis
    by (rule conjI [OF A conjI [OF B conjI [OF C D]]])
qed

theorem C2_diagnostics_order_witness:
  "ip_cstr_to_number ''abc'' 13 0 = - 1
   \<and> fst (wake_on_lan POSIX os_ok (Some wol_zero) ''abc'' 60000 ''FF:FF:FF:FF:FF:FF'')
       = WAKE_ON_LAN_ERRORS_IP
   \<and> Call_mac_cstr_to_number
       \<notin> set (snd (snd (wake_on_lan POSIX os_ok (Some wol_zero) ''abc'' 60000 ''FF:FF:FF:FF:FF:FF'')))
   \<and> map_option mac (fst (snd (wake_on_lan POSIX os_ok (Some wol_zero) ''abc'' 60000 ''FF:FF:FF:FF:FF:FF'')))
       = Some 0
   \<and> ip_cstr_to_number ''192.168.178.255'' 13 0 \<noteq> - 1
   \<and> mac_cstr_to_number ''00:11:22:33:44:55'' \<noteq> - 1
   \<and> take 4 (snd (snd (wake_on_lan POSIX os_ok (Some wol_zero) ''192.168.178.255'' 60000
                          ''00:11:22:33:44:55'')))
       = [Call_ip_cstr_to_number, Store_ip_v4 0xC0A8B2FF, Call_mac_cstr_to_number,
          Store_mac 0x001122334455]
   \<and> last (snd (snd (wake_on_lan POSIX os_ok (Some wol_zero) ''192.168.178.255'' 60000
                        ''00:11:22:33:44:55'')))
       = Store_return_value WAKE_ON_LAN_ERRORS_NONE
   \<and> fst (snd (wake_on_lan POSIX os_ok None ''192.168.178.255'' 60000 ''00:11:22:33:44:55''))
       = None"
proof -
  have r1: "wake_on_lan POSIX os_ok (Some wol_zero) ''abc'' 60000 ''FF:FF:FF:FF:FF:FF''
     = (WAKE_ON_LAN_ERRORS_IP,
        Some (wol_zero\<lparr>last_error := - 1, return_value := WAKE_ON_LAN_ERRORS_IP\<rparr>),
        [Call_ip_cstr_to_number, Store_last_error (- 1), Call_close (- 1),
         Store_return_value WAKE_ON_LAN_ERRORS_IP])"
    by code_simp
  have r2: "wake_on_lan POSIX os_ok (Some wol_zero) ''192.168.178.255'' 60000 ''00:11:22:33:44:55''
     = (WAKE_ON_LAN_ERRORS_NONE,
        Some \<lparr>ip_v4 = 0xC0A8B2FF, mac = 0x001122334455, return_value = WAKE_ON_LAN_ERRORS_NONE,
              last_error = 0\<rparr>,
        [Call_ip_cstr_to_number, Store_ip_v4 0xC0A8B2FF, Call_mac_cstr_to_number,
         Store_mac 0x001122334455, Call_socket AF_INET SOCK_DGRAM IPPROTO_UDP,
         Call_setsockopt 3 SOL_SOCKET SO_BROADCAST 1,
         Call_sendto 3
           (map Some (replicate 6 0xFF @ concat (replicate 16 [0x00, 0x11, 0x22, 0x33, 0x44, 0x55])))
           \<lparr>sin_family = AF_INET, sin_port = [0xEA, 0x60], sin_addr = [192, 168, 178, 255]\<rparr>,
         Call_close 3, Store_return_value WAKE_ON_LAN_ERRORS_NONE])"
    by code_simp
  have p: "ip_cstr_to_number ''abc'' 13 0 = - 1"
      "ip_cstr_to_number ''192.168.178.255'' 13 0 = 0xC0A8B2FF"
      "mac_cstr_to_number ''00:11:22:33:44:55'' = 0x001122334455"
    by code_simp+
  have z: "mac wol_zero = 0"
    by (simp add: wol_zero_def)
  have r3: "wake_on_lan POSIX os_ok None ''192.168.178.255'' 60000 ''00:11:22:33:44:55''
     = (fst (wake_on_lan POSIX os_ok None ''192.168.178.255'' 60000 ''00:11:22:33:44:55''),
        fst (snd (wake_on_lan POSIX os_ok None ''192.168.178.255'' 60000 ''00:11:22:33:44:55'')),
        snd (snd (wake_on_lan POSIX os_ok None ''192.168.178.255'' 60000 ''00:11:22:33:44:55'')))"
    by simp
  have n: "fst (snd (wake_on_lan POSIX os_ok None ''192.168.178.255'' 60000 ''00:11:22:33:44:55''))
       = None"
    using C2_diagnostics_order [OF r3] by blast
  show ?thesis
    using C2_diagnostics_order [OF r1] C2_diagnostics_order [OF r2] n
    by (simp add: r1 r2 p z)
qed

section \<open>Releasing the socket on Windows\<close>

text \<open>
  Claim C5. On the Windows variant: if \<open>socket\<close> was called and returned a valid
  handle, \<open>closesocket\<close> is called on that handle, whatever happened in between;
  \<open>closesocket\<close> is called on no other handle and only after a successful \<open>socket\<close>;
  if that call fails the function returns \<open>WAKE_ON_LAN_ERRORS_SOCKET_CLOSE\<close> (and
  stores it and the error code in the record), whatever the earlier steps gave, a
  successful send included; \<open>WSACleanup\<close> is the last call of every run, followed only
  by the store of the result code; POSIX \<open>close\<close> is never called.
\<close>

theorem C5_windows_release:
  assumes run: "wake_on_lan WIN32 os wol ip_text port mac_text = (rc, wol', effs)"
  shows "(Call_socket AF_INET SOCK_DGRAM IPPROTO_UDP \<in> set effs \<and> socket_result os \<noteq> INVALID_SOCKET \<longrightarrow>
            Call_closesocket (socket_result os) \<in> set effs)
       \<and> (\<forall>fd. Call_closesocket fd \<in> set effs \<longrightarrow>
            fd = socket_result os \<and> fd \<noteq> INVALID_SOCKET \<and> Call_socket AF_INET SOCK_DGRAM IPPROTO_UDP \<in> set effs)
       \<and> (\<forall>fd. Call_closesocket fd \<in> set effs \<and> closesocket_result os = SOCKET_ERROR \<longrightarrow>
            rc = WAKE_ON_LAN_ERRORS_SOCKET_CLOSE
            \<and> map_option return_value wol' = map_option (\<lambda>w. WAKE_ON_LAN_ERRORS_SOCKET_CLOSE) wol
            \<and> map_option last_error wol' = map_option (\<lambda>w. closesocket_error os) wol)
       \<and> (\<exists>pre. effs = pre @ Call_WSACleanup
              # (case wol of None \<Rightarrow> [] | Some w \<Rightarrow> [Store_return_value rc]))
       \<and> (\<forall>fd. Call_close fd \<notin> set effs)"
proof -
  have A: "Call_socket AF_INET SOCK_DGRAM IPPROTO_UDP \<in> set effs \<and> socket_result os \<noteq> INVALID_SOCKET \<longrightarrow>
            Call_closesocket (socket_result os) \<in> set effs"
    using run by (cases wol) (auto simp: wol_defs split: if_splits)
  have B: "\<forall>fd. Call_closesocket fd \<in> set effs \<longrightarrow>
            fd = socket_result os \<and> fd \<noteq> INVALID_SOCKET \<and> Call_socket AF_INET SOCK_DGRAM IPPROTO_UDP \<in> set effs"
    using run by (cases wol) (auto simp: wol_defs split: if_splits)
  have C: "\<forall>fd. Call_closesocket fd \<in> set effs \<and> closesocket_result os = SOCKET_ERROR \<longrightarrow>
            rc = WAKE_ON_LAN_ERRORS_SOCKET_CLOSE
            \<and> map_option return_value wol' = map_option (\<lambda>w. WAKE_ON_LAN_ERRORS_SOCKET_CLOSE) wol
            \<and> map_option last_error wol' = map_option (\<lambda>w. closesocket_error os) wol"
    using run by (cases wol) (auto simp: wol_defs split: if_splits)
  have D: "\<exists>pre. effs = pre @ Call_WSACleanup
              # (case wol of None \<Rightarrow> [] | Some w \<Rightarrow> [Store_return_value rc])"
    using run by (cases wol) (auto simp: wol_defs split: if_splits)
  have E: "\<forall>fd. Call_close fd \<notin> set effs"
    using run by (cases wol) (auto simp: wol_defs split: if_splits)
  show ?thesis
    by (rule conjI [OF A conjI [OF B conjI [OF C conjI [OF D E]]]])
qed

theorem C5_windows_release_witness:
  "Call_socket AF_INET SOCK_DGRAM IPPROTO_UDP \<in> set (snd (snd (wake_on_lan WIN32 os_close_fails
        (Some wol_zero) ''192.168.178.255'' 60000 ''00:11:22:33:44:55'')))
   \<and> socket_result os_close_fails \<noteq> INVALID_SOCKET
   \<and> sendto_result os_close_fails = 102
   \<and> closesocket_result os_close_fails = SOCKET_ERROR
   \<and> Call_closesocket 3 \<in> set (snd (snd (wake_on_lan WIN32 os_close_fails
        (Some wol_zero) ''192.168.178.255'' 60000 ''00:11:22:33:44:55'')))
   \<and> fst (wake_on_lan WIN32 os_close_fails
        (Some wol_zero) ''192.168.178.255'' 60000 ''00:11:22:33:44:55'')
       = WAKE_ON_LAN_ERRORS_SOCKET_CLOSE"
proof -
  let ?os = "os_close_fails"
  have r: "wake_on_lan WIN32 ?os (Some wol_zero) ''192.168.178.255'' 60000 ''00:11:22:33:44:55''
     = (WAKE_ON_LAN_ERRORS_SOCKET_CLOSE,
        Some \<lparr>ip_v4 = 0xC0A8B2FF, mac = 0x001122334455,
              return_value = WAKE_ON_LAN_ERRORS_SOCKET_CLOSE, last_error = 10038\<rparr>,
        [Call_ip_cstr_to_number, Store_ip_v4 0xC0A8B2FF, Call_mac_cstr_to_number,
         Store_mac 0x001122334455, Call_WSAStartup 0x0202, Call_socket AF_INET SOCK_DGRAM IPPROTO_UDP,
         Call_setsockopt 3 SOL_SOCKET SO_BROADCAST 1,
         Call_sendto 3
           (map Some (replicate 6 0xFF @ concat (replicate 16 [0x00, 0x11, 0x22, 0x33, 0x44, 0x55])))
           \<lparr>sin_family = AF_INET, sin_port = [0xEA, 0x60], sin_addr = [192, 168, 178, 255]\<rparr>,
         Call_closesocket 3, Store_last_error 10038, Call_WSACleanup,
         Store_return_value WAKE_ON_LAN_ERRORS_SOCKET_CLOSE])"
    by code_simp
  have o: "socket_result ?os = 3" "sendto_result ?os = 102" "closesocket_result ?os = SOCKET_ERROR"
      "INVALID_SOCKET = - 1"
    by (simp_all add: os_close_fails_def os_ok_def SOCKET_ERROR_def INVALID_SOCKET_def)
  show ?thesis
    using C5_windows_release [OF r] by (simp add: r o)
qed

section \<open>The send step\<close>

lemma mac_cstr_to_number_range:
  "mac_cstr_to_number s \<noteq> - 1 \<Longrightarrow> uint (mac_cstr_to_number s) < 2 ^ 48"
proof -
  let ?hs = "filter is_hex_digit (scanned s 17 0)"
  assume ok: "mac_cstr_to_number s \<noteq> - 1"
  then have eq: "mac_cstr_to_number s = word_of_int (hex_value (take 12 ?hs))"
    by (simp add: mac_cstr_to_number_eq split: if_splits)
  have "list_all is_hex_digit (take 12 ?hs)"
    by (auto simp: list_all_iff dest: in_set_takeD)
  then have b: "0 \<le> hex_value (take 12 ?hs) \<and> hex_value (take 12 ?hs) < 2 ^ 48"
    by (rule hex_value_bound) simp
  then have "uint (word_of_int (hex_value (take 12 ?hs)) :: 64 word) = hex_value (take 12 ?hs)"
    by (simp add: uint_word_of_int take_bit_eq_mod)
  with b show ?thesis
    by (simp only: eq)
qed




section \<open>Packet construction\<close>

text \<open>
  Claim C1. For every MAC value the buffer that \<open>wake_on_lan\<close> builds is the magic
  packet: 102 bytes, six bytes \<open>0xFF\<close> followed by sixteen copies of the six bytes of
  the MAC, most significant first. Every payload that a run passes to \<open>sendto\<close> is
  this packet for the parsed MAC, which is a 48-bit value.
\<close>

theorem C1_magic_packet:
  "take sizeof_data (build_packet m data_init) = map Some (magic_packet m)
   \<and> magic_packet m = replicate 6 0xFF @ concat (replicate 16 (mac_octets m))
   \<and> mac_octets m = [word_of_int (uint m div 256 ^ 5), word_of_int (uint m div 256 ^ 4),
                      word_of_int (uint m div 256 ^ 3), word_of_int (uint m div 256 ^ 2),
                      word_of_int (uint m div 256 ^ 1), word_of_int (uint m div 256 ^ 0)]
   \<and> length (magic_packet m) = 102
   \<and> (wake_on_lan pf os wol ip_text port mac_text = (rc, wol', effs)
        \<and> Call_sendto fd payload addr \<in> set effs \<longrightarrow>
        payload = map Some (magic_packet (mac_cstr_to_number mac_text))
        \<and> length payload = 102
        \<and> uint (mac_cstr_to_number mac_text) < 2 ^ 48)"
proof -
  have A: "take sizeof_data (build_packet m data_init) = map Some (magic_packet m)"
    by (rule sendto_payload)
  have B: "magic_packet m = replicate 6 0xFF @ concat (replicate 16 (mac_octets m))"
    by (rule magic_packet_def)
  have C: "mac_octets m = [word_of_int (uint m div 256 ^ 5), word_of_int (uint m div 256 ^ 4),
                      word_of_int (uint m div 256 ^ 3), word_of_int (uint m div 256 ^ 2),
                      word_of_int (uint m div 256 ^ 1), word_of_int (uint m div 256 ^ 0)]"
    unfolding mac_octets_def by (simp only: list.map)
  have D: "length (magic_packet m) = 102"
    by (rule length_magic_packet)
  have "payload = map Some (magic_packet (mac_cstr_to_number mac_text))
        \<and> mac_cstr_to_number mac_text \<noteq> - 1"
    if "wake_on_lan pf os wol ip_text port mac_text = (rc, wol', effs)"
      and "Call_sendto fd payload addr \<in> set effs"
    using that by (cases wol; cases pf) (auto simp: wol_defs sendto_payload split: if_splits)
  then have E: "wake_on_lan pf os wol ip_text port mac_text = (rc, wol', effs)
        \<and> Call_sendto fd payload addr \<in> set effs \<longrightarrow>
        payload = map Some (magic_packet (mac_cstr_to_number mac_text))
        \<and> length payload = 102
        \<and> uint (mac_cstr_to_number mac_text) < 2 ^ 48"
    using mac_cstr_to_number_range [of mac_text] length_magic_packet [of "mac_cstr_to_number mac_text"]
    by auto
  show ?thesis
    by (rule conjI [OF A conjI [OF B conjI [OF C conjI [OF D E]]]])
qed

theorem C1_magic_packet_witness:
  "magic_packet 0x001122334455
     = replicate 6 0xFF @ concat (replicate 16 [0x00, 0x11, 0x22, 0x33, 0x44, 0x55])
   \<and> mac_cstr_to_number ''00:11:22:33:44:55'' = 0x001122334455
   \<and> wake_on_lan POSIX os_ok None ''192.168.178.255'' 60000 ''00:11:22:33:44:55''
       = (WAKE_ON_LAN_ERRORS_NONE, None,
          [Call_ip_cstr_to_number, Call_mac_cstr_to_number, Call_socket AF_INET SOCK_DGRAM IPPROTO_UDP,
         Call_setsockopt 3 SOL_SOCKET SO_BROADCAST 1,
           Call_sendto 3 (map Some (magic_packet 0x001122334455))
             \<lparr>sin_family = AF_INET, sin_port = [0xEA, 0x60], sin_addr = [192, 168, 178, 255]\<rparr>,
           Call_close 3])
   \<and> length (map Some (magic_packet 0x001122334455)) = 102"
proof -
  let ?payload = "map Some (magic_packet 0x001122334455)"
  let ?addr = "\<lparr>sin_family = AF_INET, sin_port = [0xEA, 0x60], sin_addr = [192, 168, 178, 255]\<rparr>"
  let ?effs = "[Call_ip_cstr_to_number, Call_mac_cstr_to_number, Call_socket AF_INET SOCK_DGRAM IPPROTO_UDP,
         Call_setsockopt 3 SOL_SOCKET SO_BROADCAST 1,
           Call_sendto 3 ?payload ?addr, Call_close 3]"
  have r: "wake_on_lan POSIX os_ok None ''192.168.178.255'' 60000 ''00:11:22:33:44:55''
     = (WAKE_ON_LAN_ERRORS_NONE, None, ?effs)"
    by code_simp
  have s: "Call_sendto 3 ?payload ?addr \<in> set ?effs"
    by simp
  have m: "mac_cstr_to_number ''00:11:22:33:44:55'' = 0x001122334455"
    by code_simp
  have p: "magic_packet 0x001122334455
     = replicate 6 0xFF @ concat (replicate 16 [0x00, 0x11, 0x22, 0x33, 0x44, 0x55])"
    by code_simp
  have l: "length ?payload = 102"
    using C1_magic_packet [of "0x001122334455" POSIX os_ok None "''192.168.178.255''" 60000
        "''00:11:22:33:44:55''" WAKE_ON_LAN_ERRORS_NONE None ?effs 3 ?payload ?addr] r s
    by blast
  show ?thesis
    using p m r l by blast
qed

section \<open>The scan length of the IPv4 parser\<close>

text \<open>
  Claim C10. \<open>wake_on_lan\<close> parses the IPv4 text with the scan length 13: of the
  numeric parts of the text, those whose first digit lies below index 13 are consumed
  and no other. The call fails with \<open>WAKE_ON_LAN_ERRORS_IP\<close> exactly when no part
  starts below index 13; otherwise the address that is stored into the record and to
  which the packet is sent is the one made of the parts that start below index 13. Two
  texts with the same parts below index 13 give the same run, whatever else they hold.
\<close>

theorem C10_scan_length:
  assumes run: "wake_on_lan pf os wol ip_text port mac_text = (rc, wol', effs)"
  shows "(rc = WAKE_ON_LAN_ERRORS_IP \<longleftrightarrow> parts_below 13 ip_text = [])
       \<and> (rc \<noteq> WAKE_ON_LAN_ERRORS_IP \<longrightarrow>
            map_option ip_v4 wol'
              = map_option (\<lambda>w. ucast (address_of (parts_below 13 ip_text))) wol)
       \<and> (\<forall>fd d a. Call_sendto fd d a \<in> set effs \<longrightarrow>
            sin_addr a = htonl (ucast (address_of (parts_below 13 ip_text))))
       \<and> ip_cstr_to_number ip_text 13 0 = address_of (parts_below 13 ip_text)
       \<and> (\<forall>ip_text'. parts_below 13 ip_text' = parts_below 13 ip_text \<longrightarrow>
            wake_on_lan pf os wol ip_text' port mac_text = (rc, wol', effs))"
proof -
  let ?x = "ip_cstr_to_number ip_text 13 0"
  have x: "?x = address_of (parts_below 13 ip_text)"
    by (rule ip_cstr_to_number_parts)
  have "rc = WAKE_ON_LAN_ERRORS_IP \<longleftrightarrow> ?x = - 1"
    using run by (cases wol; cases pf) (auto simp: wol_defs split: if_splits)
  then have A: "rc = WAKE_ON_LAN_ERRORS_IP \<longleftrightarrow> parts_below 13 ip_text = []"
    by (simp only: ip_cstr_to_number_fails)
  have "rc \<noteq> WAKE_ON_LAN_ERRORS_IP \<longrightarrow> map_option ip_v4 wol' = map_option (\<lambda>w. ucast ?x) wol"
    using run by (cases wol; cases pf) (auto simp: wol_defs split: if_splits)
  then have B: "rc \<noteq> WAKE_ON_LAN_ERRORS_IP \<longrightarrow>
            map_option ip_v4 wol'
              = map_option (\<lambda>w. ucast (address_of (parts_below 13 ip_text))) wol"
    by (simp only: x)
  have "\<forall>fd d a. Call_sendto fd d a \<in> set effs \<longrightarrow> sin_addr a = htonl (ucast ?x)"
    using run by (cases wol; cases pf) (auto simp: wol_defs split: if_splits)
  then have C: "\<forall>fd d a. Call_sendto fd d a \<in> set effs \<longrightarrow>
            sin_addr a = htonl (ucast (address_of (parts_below 13 ip_text)))"
    by (simp only: x)
  have D: "\<forall>ip_text'. parts_below 13 ip_text' = parts_below 13 ip_text \<longrightarrow>
            wake_on_lan pf os wol ip_text' port mac_text = (rc, wol', effs)"
  proof (intro allI impI)
    fix ip_text'
    assume "parts_below 13 ip_text' = parts_below 13 ip_text"
    then have "ip_cstr_to_number ip_text' 13 0 = ?x"
      by (simp only: ip_cstr_to_number_parts)
    then have "wake_on_lan pf os wol ip_text' port mac_text
               = wake_on_lan pf os wol ip_text port mac_text"
      by (simp add: wake_on_lan_def wol_do_while_def)
    then show "wake_on_lan pf os wol ip_text' port mac_text = (rc, wol', effs)"
      by (simp only: run)
  qed
  show ?thesis
    by (rule conjI [OF A conjI [OF B conjI [OF C conjI [OF x D]]]])
qed

theorem C10_scan_length_witness:
  "ip_parts ''1111.2222.3333.4444'' = [(0, 1111), (5, 2222), (10, 3333), (15, 4444)]
   \<and> parts_below 13 ''1111.2222.3333.4444'' = [(0, 1111), (5, 2222), (10, 3333)]
   \<and> ip_cstr_to_number ''1111.2222.3333.4444'' 13 0 = 0x5FAE0D05
   \<and> map_option ip_v4 (fst (snd (wake_on_lan POSIX os_ok (Some wol_zero)
        ''1111.2222.3333.4444'' 60000 ''00:11:22:33:44:55''))) = Some 0x5FAE0D05
   \<and> Call_sendto 3 (map Some (magic_packet 0x001122334455))
        \<lparr>sin_family = AF_INET, sin_port = [0xEA, 0x60], sin_addr = [95, 174, 13, 5]\<rparr>
      \<in> set (snd (snd (wake_on_lan POSIX os_ok (Some wol_zero)
          ''1111.2222.3333.4444'' 60000 ''00:11:22:33:44:55'')))
   \<and> htonl (ucast (address_of (parts_below 13 ''1111.2222.3333.4444''))) = [95, 174, 13, 5]
   \<and> wake_on_lan POSIX os_ok (Some wol_zero) ''1111.2222.3333.9'' 60000 ''00:11:22:33:44:55''
       = wake_on_lan POSIX os_ok (Some wol_zero) ''1111.2222.3333.4444'' 60000 ''00:11:22:33:44:55''
   \<and> ip_parts ''.............1.2.3.4'' = [(13, 1), (15, 2), (17, 3), (19, 4)]
   \<and> parts_below 13 ''.............1.2.3.4'' = []
   \<and> fst (wake_on_lan POSIX os_ok (Some wol_zero) ''.............1.2.3.4'' 60000
        ''00:11:22:33:44:55'') = WAKE_ON_LAN_ERRORS_IP
   \<and> parts_below 13 ''192.168.178.255'' = [(0, 192), (4, 168), (8, 178), (12, 255)]
   \<and> parts_below 13 ''1.2.3ghijklmn5'' = [(0, 1), (2, 2), (4, 3)]"
proof -
  have r: "wake_on_lan POSIX os_ok (Some wol_zero) ''1111.2222.3333.4444'' 60000 ''00:11:22:33:44:55''
     = (WAKE_ON_LAN_ERRORS_NONE,
        Some \<lparr>ip_v4 = 0x5FAE0D05, mac = 0x001122334455,
              return_value = WAKE_ON_LAN_ERRORS_NONE, last_error = 0\<rparr>,
        [Call_ip_cstr_to_number, Store_ip_v4 0x5FAE0D05, Call_mac_cstr_to_number,
         Store_mac 0x001122334455, Call_socket AF_INET SOCK_DGRAM IPPROTO_UDP,
         Call_setsockopt 3 SOL_SOCKET SO_BROADCAST 1,
         Call_sendto 3
           (map Some (replicate 6 0xFF @ concat (replicate 16 [0x00, 0x11, 0x22, 0x33, 0x44, 0x55])))
           \<lparr>sin_family = AF_INET, sin_port = [0xEA, 0x60], sin_addr = [95, 174, 13, 5]\<rparr>,
         Call_close 3, Store_return_value WAKE_ON_LAN_ERRORS_NONE])"
    by code_simp
  have r': "wake_on_lan POSIX os_ok (Some wol_zero) ''.............1.2.3.4'' 60000 ''00:11:22:33:44:55''
     = (WAKE_ON_LAN_ERRORS_IP,
        Some \<lparr>ip_v4 = 0, mac = 0, return_value = WAKE_ON_LAN_ERRORS_IP, last_error = - 1\<rparr>,
        [Call_ip_cstr_to_number, Store_last_error (- 1), Call_close (- 1),
         Store_return_value WAKE_ON_LAN_ERRORS_IP])"
    by code_simp
  have a: "ip_parts ''1111.2222.3333.4444'' = [(0, 1111), (5, 2222), (10, 3333), (15, 4444)]"
    by code_simp
  have a': "ip_parts ''.............1.2.3.4'' = [(13, 1), (15, 2), (17, 3), (19, 4)]"
    by code_simp
  have p: "parts_below 13 ''1111.2222.3333.4444'' = [(0, 1111), (5, 2222), (10, 3333)]"
    by code_simp
  have q: "parts_below 13 ''1111.2222.3333.9'' = [(0, 1111), (5, 2222), (10, 3333)]"
    by code_simp
  have v: "address_of [(0, 1111), (5, 2222), (10, 3333)] = 0x5FAE0D05"
    by code_simp
  have b: "parts_below 13 ''192.168.178.255'' = [(0, 192), (4, 168), (8, 178), (12, 255)]"
    by code_simp
  have c: "parts_below 13 ''1.2.3ghijklmn5'' = [(0, 1), (2, 2), (4, 3)]"
    by code_simp
  note th = C10_scan_length [OF r]
  have 1: "ip_cstr_to_number ''1111.2222.3333.4444'' 13 0 = 0x5FAE0D05"
    using th unfolding p v by blast
  have 2: "map_option ip_v4 (fst (snd (wake_on_lan POSIX os_ok (Some wol_zero)
        ''1111.2222.3333.4444'' 60000 ''00:11:22:33:44:55''))) = Some 0x5FAE0D05"
    using th unfolding r p v by simp
  have m: "map Some (replicate 6 0xFF @ concat (replicate 16 [0x00, 0x11, 0x22, 0x33, 0x44, 0x55]))
           = map Some (magic_packet 0x001122334455)"
    by code_simp
  have 3: "Call_sendto 3 (map Some (magic_packet 0x001122334455))
        \<lparr>sin_family = AF_INET, sin_port = [0xEA, 0x60], sin_addr = [95, 174, 13, 5]\<rparr>
      \<in> set (snd (snd (wake_on_lan POSIX os_ok (Some wol_zero)
          ''1111.2222.3333.4444'' 60000 ''00:11:22:33:44:55'')))"
    unfolding r m by simp
  have s: "htonl (ucast (address_of (parts_below 13 ''1111.2222.3333.4444''))) = [95, 174, 13, 5]"
    using conjunct1 [OF conjunct2 [OF conjunct2 [OF th]]] unfolding m by simp
  have 4: "wake_on_lan POSIX os_ok (Some wol_zero) ''1111.2222.3333.9'' 60000 ''00:11:22:33:44:55''
       = wake_on_lan POSIX os_ok (Some wol_zero) ''1111.2222.3333.4444'' 60000 ''00:11:22:33:44:55''"
    using th q unfolding r p by blast
  have 5: "parts_below 13 ''.............1.2.3.4'' = []"
    using conjunct1 [OF C10_scan_length [OF r']] by simp
  have 6: "fst (wake_on_lan POSIX os_ok (Some wol_zero) ''.............1.2.3.4'' 60000
        ''00:11:22:33:44:55'') = WAKE_ON_LAN_ERRORS_IP"
    by (simp add: r')
  show ?thesis
    using a p 1 2 3 s 4 a' 5 6 b c by blast
qed

end
